theory Spec2Isabelle
  imports Main "HOL-Library.Sublist" "HOL-Library.List_Lexorder" "HOL-Library.Char_ord"
begin

section \<open>Text primitives used by the diff engine\<close>

text \<open>
  Python \<open>str\<close> values are modelled as \<open>string\<close>, each \<open>char\<close> read as the code
  point of the same number (0 to 255). Text with code points above 255 is outside the
  model. The helpers below follow what CPython does on that range.
\<close>

definition lower_char :: "char \<Rightarrow> char" where
  \<comment> \<open>\<open>str.lower\<close> on one code point: A-Z and the Latin-1 capitals (except the
      multiplication sign 215) move up by 32.\<close>
  "lower_char c =
     (let n = (of_char c :: nat)
      in if (65 \<le> n \<and> n \<le> 90) \<or> (192 \<le> n \<and> n \<le> 222 \<and> n \<noteq> 215)
         then char_of (n + 32) else c)"

definition lower :: "string \<Rightarrow> string" where
  "lower s = map lower_char s"

definition is_space :: "char \<Rightarrow> bool" where
  \<comment> \<open>\<open>str.isspace\<close>: TAB, LF, VT, FF, CR, FS, GS, RS, US, space, NEL, NBSP.\<close>
  "is_space c =
     (let n = (of_char c :: nat)
      in (9 \<le> n \<and> n \<le> 13) \<or> (28 \<le> n \<and> n \<le> 32) \<or> n = 133 \<or> n = 160)"

definition strip :: "string \<Rightarrow> string" where
  \<comment> \<open>\<open>str.strip()\<close> with no argument.\<close>
  "strip s = rev (dropWhile is_space (rev (dropWhile is_space s)))"

fun str_contains :: "string \<Rightarrow> string \<Rightarrow> bool" where
  \<comment> \<open>\<open>str_contains p s\<close> is Python's \<open>p in s\<close>.\<close>
  "str_contains p [] = (p = [])"
| "str_contains p (c # cs) = (prefix p (c # cs) \<or> str_contains p cs)"

definition startswith :: "string \<Rightarrow> string \<Rightarrow> bool" where
  \<comment> \<open>\<open>startswith s p\<close> is Python's \<open>s.startswith(p)\<close>.\<close>
  "startswith s p = prefix p s"

definition endswith :: "string \<Rightarrow> string \<Rightarrow> bool" where
  "endswith s p = suffix p s"

definition is_linebreak :: "char \<Rightarrow> bool" where
  \<comment> \<open>The single-character line boundaries of \<open>str.splitlines\<close>
      (CR LF together is handled in \<open>split_acc\<close>).\<close>
  "is_linebreak c =
     (let n = (of_char c :: nat)
      in (10 \<le> n \<and> n \<le> 13) \<or> (28 \<le> n \<and> n \<le> 30) \<or> n = 133)"

fun split_acc :: "bool \<Rightarrow> string \<Rightarrow> string \<Rightarrow> string list" where
  "split_acc keepends acc [] = (if acc = [] then [] else [acc])"
| "split_acc keepends acc [c] =
     (if is_linebreak c then [if keepends then acc @ [c] else acc]
      else [acc @ [c]])"
| "split_acc keepends acc (c # d # ds) =
     (if c = CHR 0x0D \<and> d = CHR 0x0A
        then (if keepends then acc @ [c, d] else acc) # split_acc keepends [] ds
      else if is_linebreak c
        then (if keepends then acc @ [c] else acc) # split_acc keepends [] (d # ds)
      else split_acc keepends (acc @ [c]) (d # ds))"

definition splitlines :: "bool \<Rightarrow> string \<Rightarrow> string list" where
  \<comment> \<open>\<open>splitlines keepends s\<close> is Python's \<open>s.splitlines(keepends)\<close>.\<close>
  "splitlines keepends s = split_acc keepends [] s"

section \<open>diff\_engine.py\<close>

definition skip_patterns :: "string list" where
  "skip_patterns =
     [''clock'', ''ntp clock-period'', ''!Time:'', ''!Last configuration change'',
      ''!NVRAM config last updated'', ''version '']"

fun should_skip :: "string list \<Rightarrow> string \<Rightarrow> bool" where
  \<comment> \<open>The inner \<open>for pattern in skip_patterns\<close> loop with its \<open>break\<close>.\<close>
  "should_skip [] line_lower = False"
| "should_skip (pattern # ps) line_lower =
     (if str_contains pattern line_lower then True else should_skip ps line_lower)"

fun filter_loop :: "string list \<Rightarrow> string list \<Rightarrow> string list" where
  \<comment> \<open>The \<open>for line in lines\<close> loop; the first argument is the list \<open>filtered\<close>.\<close>
  "filter_loop filtered [] = filtered"
| "filter_loop filtered (line # rest) =
     (let line_lower = strip (lower line)
      in if line_lower = [] \<or> startswith line_lower ''!'' then
           (if list_ex (\<lambda>pattern. str_contains pattern line_lower) [''!last'', ''!nvram'']
            then filter_loop filtered rest
            else filter_loop (filtered @ [line]) rest)
         else if \<not> should_skip skip_patterns line_lower
           then filter_loop (filtered @ [line]) rest
         else filter_loop filtered rest)"

definition filter_dynamic_lines :: "string list \<Rightarrow> string list" where
  \<comment> \<open>\<open>DiffEngine._filter_dynamic_lines\<close>.\<close>
  "filter_dynamic_lines lines = filter_loop [] lines"

record diff_result =
  has_changes :: bool
  diff :: string
  added_lines :: nat
  removed_lines :: nat
  modified_lines :: nat

definition no_changes :: diff_result where
  "no_changes =
     \<lparr>has_changes = False, diff = '''', added_lines = 0, removed_lines = 0,
      modified_lines = 0\<rparr>"

definition unified_diff ::
  "(string list \<Rightarrow> string list \<Rightarrow> string list) \<Rightarrow> string list \<Rightarrow> string list \<Rightarrow> string list"
where
  \<comment> \<open>\<open>difflib.unified_diff(a, b, fromfile='old_config', tofile='new_config',
      lineterm='', n=3)\<close> of the Python standard library: nothing for equal
      sequences, otherwise the two file header lines followed by the hunks. The hunk
      lines are the parameter \<open>hunks\<close>.\<close>
  "unified_diff hunks a b =
     (if a = b then [] else ''--- old_config'' # ''+++ new_config'' # hunks a b)"

definition compare_configs ::
  "(string list \<Rightarrow> string list \<Rightarrow> string list) \<Rightarrow> string \<Rightarrow> string \<Rightarrow> diff_result"
where
  "compare_configs hunks old_config0 new_config0 =
     (let old_config = strip old_config0;
          new_config = strip new_config0
      in if old_config = new_config then no_changes
         else
           let old_lines = splitlines True old_config;
               new_lines = splitlines True new_config;
               old_filtered = filter_dynamic_lines old_lines;
               new_filtered = filter_dynamic_lines new_lines;
               old_filtered_text = strip (concat old_filtered);
               new_filtered_text = strip (concat new_filtered)
           in if old_filtered_text = new_filtered_text then no_changes
              else
                let diff_text = concat (unified_diff hunks old_filtered new_filtered);
                    diff_lines = splitlines False diff_text;
                    added = length (filter (\<lambda>line. startswith line ''+''
                                             \<and> \<not> startswith line ''+++'') diff_lines);
                    removed = length (filter (\<lambda>line. startswith line ''-''
                                               \<and> \<not> startswith line ''---'') diff_lines)
                in if strip diff_text = [] then no_changes
                   else \<lparr>has_changes = True, diff = diff_text, added_lines = added,
                         removed_lines = removed, modified_lines = 0\<rparr>)"

section \<open>device\_manager.py\<close>

text \<open>
  The network is outside the program. It is modelled as three oracles that give the
  outcome of the n-th call of each kind (counted from 0 over the life of the manager):
  opening a session (\<open>ConnectHandler(...)\<close>), the liveness probe of
  \<open>_check_connection\<close>, and \<open>send_command\<close> of a real command. The manager's
  state counts the calls made so far and keeps the trace of what it did to the outside:
  sleeps, opens, probes, commands sent and disconnects, in the order they happened. A
  session handle is the number of the open call that made it.
\<close>

datatype open_outcome = Opened | TimeoutExc | AuthExc | OtherExc

datatype event =
    Sleep int
  | OpenSession nat open_outcome
  | Probe bool
  | SendCommand string "string + string"
  | Disconnect nat

record network =
  open_result :: "nat \<Rightarrow> open_outcome"
  probe_result :: "nat \<Rightarrow> bool"
  send_result :: "nat \<Rightarrow> string + string"
    \<comment> \<open>\<open>Inl msg\<close>: an exception whose \<open>str(e)\<close> is \<open>msg\<close>; \<open>Inr out\<close>: the output\<close>

record device_info =
  ip :: string
  device_type :: string
  username :: string
  password :: string

record device_manager =
  devices :: "(string \<times> device_info) list"
  connections :: "string \<rightharpoonup> nat"
  connection_retries :: int
  retry_delay :: int
  n_open :: nat
  n_probe :: nat
  n_send :: nat
  trace :: "event list"

definition init_device_manager :: "(string \<times> device_info) list \<Rightarrow> device_manager" where
  \<comment> \<open>\<open>DeviceManager.__init__\<close>\<close>
  "init_device_manager devs =
     \<lparr>devices = devs, connections = Map.empty, connection_retries = 3, retry_delay = 2,
      n_open = 0, n_probe = 0, n_send = 0, trace = []\<rparr>"

definition check_connection :: "network \<Rightarrow> device_manager \<Rightarrow> bool \<times> device_manager" where
  \<comment> \<open>\<open>_check_connection\<close> on a session object (never falsy): one probe.\<close>
  "check_connection net dm =
     (probe_result net (n_probe dm),
      dm\<lparr>n_probe := n_probe dm + 1, trace := trace dm @ [Probe (probe_result net (n_probe dm))]\<rparr>)"

definition drop_session :: "string \<Rightarrow> nat \<Rightarrow> device_manager \<Rightarrow> device_manager" where
  \<comment> \<open>\<open>try: connection.disconnect() except: pass\<close> followed by
      \<open>del self.connections[device_name]\<close>\<close>
  "drop_session device_name c dm =
     dm\<lparr>trace := trace dm @ [Disconnect c],
        connections := (connections dm)(device_name := None)\<rparr>"

fun connect_loop ::
  "network \<Rightarrow> string \<Rightarrow> int \<Rightarrow> int list \<Rightarrow> device_manager \<Rightarrow> nat option \<times> device_manager"
where
  \<comment> \<open>\<open>for attempt in range(1, retry_count + 1)\<close>; the list is what is left of the range.\<close>
  "connect_loop net device_name retry_count [] dm = (None, dm)"
| "connect_loop net device_name retry_count (attempt # rest) dm =
     (if attempt > 1 \<and> retry_delay dm * (attempt - 1) < 0
        then \<comment> \<open>\<open>time.sleep\<close> raises ValueError: the generic handler, next attempt\<close>
             connect_loop net device_name retry_count rest dm
      else
        let dm1 = (if attempt > 1
                   then dm\<lparr>trace := trace dm @ [Sleep (retry_delay dm * (attempt - 1))]\<rparr>
                   else dm);
            c = n_open dm1;
            dm2 = dm1\<lparr>n_open := n_open dm1 + 1,
                      trace := trace dm1 @ [OpenSession c (open_result net c)]\<rparr>
        in case open_result net c of
             Opened \<Rightarrow>
               (let (ok, dm3) = check_connection net dm2
                in if ok
                   then (Some c, dm3\<lparr>connections := (connections dm3)(device_name \<mapsto> c)\<rparr>)
                   else connect_loop net device_name retry_count rest
                          (dm3\<lparr>trace := trace dm3 @ [Disconnect c]\<rparr>))
           | TimeoutExc \<Rightarrow> connect_loop net device_name retry_count rest dm2
           | AuthExc \<Rightarrow> (None, dm2)
           | OtherExc \<Rightarrow> connect_loop net device_name retry_count rest dm2)"

definition connect_fresh ::
  "network \<Rightarrow> string \<Rightarrow> int option \<Rightarrow> device_manager \<Rightarrow> nat option \<times> device_manager"
where
  \<comment> \<open>\<open>connect\<close> from line 78 on: the retry count and the loop.\<close>
  "connect_fresh net device_name retry_count_arg dm =
     (let retry_count = (case retry_count_arg of None \<Rightarrow> connection_retries dm | Some r \<Rightarrow> r)
      in connect_loop net device_name retry_count [1..retry_count] dm)"

definition connect ::
  "network \<Rightarrow> string \<Rightarrow> int option \<Rightarrow> device_manager \<Rightarrow> nat option \<times> device_manager"
where
  "connect net device_name retry_count_arg dm =
     (case map_of (devices dm) device_name of
        None \<Rightarrow> (None, dm)
      | Some device_info \<Rightarrow>
          (case connections dm device_name of
             Some connection \<Rightarrow>
               (let (ok, dm1) = check_connection net dm
                in if ok then (Some connection, dm1)
                   else connect_fresh net device_name retry_count_arg
                          (drop_session device_name connection dm1))
           | None \<Rightarrow> connect_fresh net device_name retry_count_arg dm))"

definition is_connection_error :: "string \<Rightarrow> bool" where
  \<comment> \<open>The test of line 194 on \<open>error_msg\<close>.\<close>
  "is_connection_error error_msg =
     (str_contains ''connection'' (lower error_msg)
      \<or> str_contains ''timeout'' (lower error_msg)
      \<or> str_contains ''closed'' (lower error_msg))"

definition clear_cached :: "string \<Rightarrow> device_manager \<Rightarrow> device_manager" where
  \<comment> \<open>\<open>if device_name in self.connections:\<close> disconnect it and delete the entry.\<close>
  "clear_cached device_name dm =
     (case connections dm device_name of
        None \<Rightarrow> dm
      | Some c \<Rightarrow> drop_session device_name c dm)"

fun execute_loop ::
  "network \<Rightarrow> string \<Rightarrow> string \<Rightarrow> bool \<Rightarrow> int \<Rightarrow> int list \<Rightarrow> nat \<Rightarrow> device_manager
     \<Rightarrow> string option \<times> device_manager"
where
  \<comment> \<open>\<open>for attempt in range(1, max_attempts + 1)\<close>\<close>
  "execute_loop net device_name command retry_on_failure max_attempts [] connection dm =
     (None, dm)"
| "execute_loop net device_name command retry_on_failure max_attempts (attempt # rest)
     connection dm =
     (let dm1 = dm\<lparr>n_send := n_send dm + 1,
                   trace := trace dm @ [SendCommand command (send_result net (n_send dm))]\<rparr>
      in case send_result net (n_send dm) of
           Inr output \<Rightarrow> (Some output, dm1)
         | Inl error_msg \<Rightarrow>
             (if retry_on_failure \<and> attempt < max_attempts then
                (if is_connection_error error_msg then
                   (case connect net device_name None (clear_cached device_name dm1) of
                      (Some connection', dm2) \<Rightarrow>
                        execute_loop net device_name command retry_on_failure max_attempts
                          rest connection' dm2
                    | (None, dm2) \<Rightarrow> (None, dm2))
                 else (None, dm1))
              else (None, clear_cached device_name dm1)))"

definition acquire :: "network \<Rightarrow> string \<Rightarrow> device_manager \<Rightarrow> nat option \<times> device_manager" where
  \<comment> \<open>Lines 153 to 172 of \<open>execute_command\<close>: the session the command will run on.\<close>
  "acquire net device_name dm =
     (case connections dm device_name of
        None \<Rightarrow> connect net device_name None dm
      | Some connection \<Rightarrow>
          (let (ok, dm1) = check_connection net dm
           in if ok then (Some connection, dm1)
              else connect net device_name None (drop_session device_name connection dm1)))"

definition execute_command ::
  "network \<Rightarrow> string \<Rightarrow> string \<Rightarrow> bool \<Rightarrow> device_manager \<Rightarrow> string option \<times> device_manager"
where
  "execute_command net device_name command retry_on_failure dm =
     (case acquire net device_name dm of
        (None, dm1) \<Rightarrow> (None, dm1)
      | (Some connection, dm1) \<Rightarrow>
          (let max_attempts = (if retry_on_failure then 2 else 1)
           in execute_loop net device_name command retry_on_failure max_attempts
                [1..max_attempts] connection dm1))"

section \<open>backup\_manager.py\<close>

text \<open>
  The store is the backup directory on a POSIX file system with case-sensitive names
  and no symbolic links. It holds the entries of the backup directory, one directory
  per device, each holding the backup files of that device. A directory lists its
  entries in the order \<open>os.listdir\<close> returns them. I/O failures are the permissions
  of the model: a directory that cannot be listed, a directory whose files cannot be
  created, overwritten or removed, a file that cannot be read. An entry of a device
  directory is a regular file or, with \<open>is_file\<close> false, a directory, which can be
  neither read, overwritten nor removed as a file and whose own entries the store
  does not hold. The backup directory itself can always be listed and written.

  The source reaches the directory of a device by
  \<open>os.path.join(self.backup_dir, device_name)\<close>. When the device name is a single
  path component (\<open>path_component\<close>) that path is the entry of that name in the
  backup directory, and the functions of this section take such a name. Any other name
  (empty, \<open>.\<close>, \<open>..\<close>, one with a slash or a NUL, one longer than a file name may
  be) makes a path that is not an entry of that name: it may be another entry, the
  backup directory itself, a directory nested deeper or one outside. The store does not
  hold such paths, and the pipeline of the scheduler hands such a device over to a
  parameter of the environment before it touches the store (see \<open>backup_device\<close>).

  Files are written and read in text mode with the encoding UTF-8. On a POSIX system
  writing stores the text as it is, and reading translates each CR LF and each other
  CR to LF (universal newlines). The content of a file is the text stored.

  A \<open>datetime\<close> is the number of microseconds from \<open>datetime.min\<close>
  (0001-01-01 00:00:00), so that the datetimes are the integers from 0 to
  \<open>datetime_max\<close>; arithmetic that leaves this range raises \<open>OverflowError\<close>.
  \<open>strptime\<close> and \<open>strftime\<close> belong to the Python standard library and are
  parameters of the model (\<open>timelib\<close>); \<open>strptime\<close> returns \<open>None\<close> where Python
  raises \<open>ValueError\<close>. The modification time of a file is kept as the datetime that
  \<open>datetime.fromtimestamp(stat.st_mtime)\<close> gives.
\<close>

record stored_file =
  content :: string
  mtime :: int
  readable :: bool
  is_file :: bool
    \<comment> \<open>\<open>os.path.isfile\<close>: \<open>False\<close> for an entry that is a directory\<close>

record directory =
  listable :: bool
  writable :: bool
  files :: "(string \<times> stored_file) list"

datatype node = PlainFile | DeviceDir directory

record timelib =
  strptime :: "string \<Rightarrow> int option"
    \<comment> \<open>\<open>datetime.strptime(s, '%Y%m%d_%H%M%S')\<close>\<close>
  strftime_key :: "int \<Rightarrow> string"
    \<comment> \<open>\<open>strftime('%Y%m%d_%H%M%S')\<close>\<close>
  strftime_iso :: "int \<Rightarrow> string"
    \<comment> \<open>\<open>strftime('%Y-%m-%d %H:%M:%S')\<close>\<close>

record backup_manager =
  backup_dir :: "(string \<times> node) list"
  retention_days :: int

definition utf8_size :: "string \<Rightarrow> nat" where
  \<comment> \<open>The number of bytes of the text in UTF-8 (code points 0 to 255).\<close>
  "utf8_size s = sum_list (map (\<lambda>c. if (of_char c :: nat) < 128 then 1 else 2) s)"

definition path_component :: "string \<Rightarrow> bool" where
  \<comment> \<open>A name that \<open>os.path.join(self.backup_dir, name)\<close> resolves to the entry \<open>name\<close>
      of the backup directory: a file name of at most 255 bytes that is not empty, not
      \<open>.\<close> or \<open>..\<close>, and has no slash and no NUL.\<close>
  "path_component name =
     (name \<noteq> [] \<and> name \<noteq> ''.'' \<and> name \<noteq> ''..''
      \<and> CHR ''/'' \<notin> set name \<and> CHR 0x00 \<notin> set name \<and> utf8_size name \<le> 255)"

fun universal_newlines :: "string \<Rightarrow> string" where
  \<comment> \<open>What reading in text mode returns for the text stored: CR LF and CR become LF.\<close>
  "universal_newlines [] = []"
| "universal_newlines [c] = [if c = CHR 0x0D then CHR 0x0A else c]"
| "universal_newlines (c # d # ds) =
     (if c = CHR 0x0D \<and> d = CHR 0x0A then CHR 0x0A # universal_newlines ds
      else if c = CHR 0x0D then CHR 0x0A # universal_newlines (d # ds)
      else c # universal_newlines (d # ds))"

datatype io_error = ListError string | RemoveError string string | OverflowError

definition datetime_max :: int where
  \<comment> \<open>\<open>datetime.max\<close>, 9999-12-31 23:59:59.999999\<close>
  "datetime_max = 315537897599999999"

definition timedelta_days :: "int \<Rightarrow> int option" where
  \<comment> \<open>\<open>timedelta(days=d)\<close> in microseconds; \<open>None\<close> is the \<open>OverflowError\<close> that
      Python raises for more than 999999999 days either way.\<close>
  "timedelta_days d =
     (if - 999999999 \<le> d \<and> d \<le> 999999999 then Some (d * 86400000000) else None)"

definition datetime_sub :: "int \<Rightarrow> int \<Rightarrow> int option" where
  \<comment> \<open>\<open>datetime - timedelta\<close>; \<open>None\<close> is the \<open>OverflowError\<close> for a result before
      \<open>datetime.min\<close> or after \<open>datetime.max\<close>.\<close>
  "datetime_sub t delta =
     (if 0 \<le> t - delta \<and> t - delta \<le> datetime_max then Some (t - delta) else None)"

definition cutoff_of :: "int \<Rightarrow> int \<Rightarrow> int option" where
  \<comment> \<open>\<open>datetime.now() - timedelta(days=self.retention_days)\<close>\<close>
  "cutoff_of now days =
     (case timedelta_days days of
        None \<Rightarrow> None
      | Some delta \<Rightarrow> datetime_sub now delta)"

function replace_del :: "string \<Rightarrow> string \<Rightarrow> string" where
  \<comment> \<open>\<open>replace_del p s\<close> is Python's \<open>s.replace(p, '')\<close> for a non-empty \<open>p\<close>.\<close>
  "replace_del p [] = []"
| "replace_del p (c # cs) =
     (if p \<noteq> [] \<and> prefix p (c # cs) then replace_del p (drop (length p) (c # cs))
      else c # replace_del p cs)"
  by pat_completeness auto
termination
  by (relation "measure (\<lambda>(p, s). length s)") auto

definition update_entry :: "'k \<Rightarrow> 'v \<Rightarrow> ('k \<times> 'v) list \<Rightarrow> ('k \<times> 'v) list" where
  \<comment> \<open>Writing an entry of a directory: in place when the name exists, else a new entry.\<close>
  "update_entry k v kvs =
     (if k \<in> set (map fst kvs) then map (\<lambda>(k', v'). if k' = k then (k', v) else (k', v')) kvs
      else kvs @ [(k, v)])"

definition remove_entry :: "'k \<Rightarrow> ('k \<times> 'v) list \<Rightarrow> ('k \<times> 'v) list" where
  "remove_entry k kvs = filter (\<lambda>(k', v'). k' \<noteq> k) kvs"

definition new_directory :: directory where
  "new_directory = \<lparr>listable = True, writable = True, files = []\<rparr>"

definition get_device_backup_dir :: "string \<Rightarrow> backup_manager \<Rightarrow> backup_manager" where
  \<comment> \<open>For a device name that is a path component: the path it returns is the entry of
      that name in the backup directory; the effect is \<open>os.makedirs\<close> when the entry
      does not exist.\<close>
  "get_device_backup_dir device_name bm =
     (case map_of (backup_dir bm) device_name of
        None \<Rightarrow> bm\<lparr>backup_dir := backup_dir bm @ [(device_name, DeviceDir new_directory)]\<rparr>
      | Some _ \<Rightarrow> bm)"

definition backup_config ::
  "timelib \<Rightarrow> int \<Rightarrow> string \<Rightarrow> string \<Rightarrow> backup_manager \<Rightarrow> string option \<times> backup_manager"
where
  \<comment> \<open>For a device name that is a path component. \<open>now\<close> is the reading of
      \<open>datetime.now()\<close>. The result is the name of the file written (the source returns
      its path), \<open>None\<close> after any exception. The text is stored as it is.\<close>
  "backup_config lib now device_name config_content bm =
     (let bm1 = get_device_backup_dir device_name bm;
          timestamp = strftime_key lib now;
          backup_file = timestamp @ ''.cfg''
      in case map_of (backup_dir bm1) device_name of
           Some (DeviceDir d) \<Rightarrow>
             (if writable d
                 \<and> (case map_of (files d) backup_file of
                        None \<Rightarrow> True | Some old \<Rightarrow> is_file old) then
                (let f = (case map_of (files d) backup_file of
                            None \<Rightarrow> \<lparr>content = config_content, mtime = now, readable = True, is_file = True\<rparr>
                          | Some old \<Rightarrow> old\<lparr>content := config_content, mtime := now\<rparr>);
                     d' = d\<lparr>files := update_entry backup_file f (files d)\<rparr>
                 in (Some backup_file,
                     bm1\<lparr>backup_dir := update_entry device_name (DeviceDir d') (backup_dir bm1)\<rparr>))
              else (None, bm1))
         | _ \<Rightarrow> (None, bm1))"

record history_entry =
  timestamp :: string
  file_name :: string
  entry_size :: nat

fun history_loop :: "timelib \<Rightarrow> (string \<times> stored_file) list \<Rightarrow> history_entry list \<Rightarrow> history_entry list"
where
  \<comment> \<open>\<open>for file in files\<close> of \<open>get_backup_history\<close>\<close>
  "history_loop lib [] history = history"
| "history_loop lib ((file, f) # rest) history =
     (if \<not> endswith file ''.cfg'' then history_loop lib rest history
      else if \<not> is_file f then history_loop lib rest history
      else
        let timestamp_str = replace_del ''.cfg'' file;
            ts = (case strptime lib timestamp_str of Some t \<Rightarrow> t | None \<Rightarrow> mtime f)
        in history_loop lib rest
             (history @ [\<lparr>timestamp = strftime_iso lib ts, file_name = file,
                          entry_size = utf8_size (content f)\<rparr>]))"

definition sort_reverse :: "('a \<Rightarrow> 'k::linorder) \<Rightarrow> 'a list \<Rightarrow> 'a list" where
  \<comment> \<open>\<open>list.sort(key=..., reverse=True)\<close>: descending, equal keys keep their order.\<close>
  "sort_reverse k xs = rev (sort_key k (rev xs))"

definition get_backup_history :: "timelib \<Rightarrow> string \<Rightarrow> backup_manager \<Rightarrow> history_entry list" where
  \<comment> \<open>For a device name that is a path component.\<close>
  "get_backup_history lib device_name bm =
     (case map_of (backup_dir bm) device_name of
        None \<Rightarrow> []
      | Some PlainFile \<Rightarrow> []
      | Some (DeviceDir d) \<Rightarrow>
          (if \<not> listable d then []
           else sort_reverse timestamp (history_loop lib (files d) [])))"

definition get_latest_backup :: "timelib \<Rightarrow> string \<Rightarrow> backup_manager \<Rightarrow> string option" where
  "get_latest_backup lib device_name bm =
     (case get_backup_history lib device_name bm of
        [] \<Rightarrow> None
      | e # _ \<Rightarrow> Some (file_name e))"

definition get_backup_content ::
  "string \<Rightarrow> string \<Rightarrow> backup_manager \<Rightarrow> string option \<times> backup_manager"
where
  \<comment> \<open>For a device name that is a path component and the name of a file as
      \<open>get_backup_history\<close> lists it. The text is read with universal newlines.\<close>
  "get_backup_content device_name backup_file bm =
     (let bm1 = get_device_backup_dir device_name bm
      in case map_of (backup_dir bm1) device_name of
           Some (DeviceDir d) \<Rightarrow>
             (case map_of (files d) backup_file of
                None \<Rightarrow> (None, bm1)
              | Some f \<Rightarrow>
                  (if readable f \<and> is_file f
                   then (Some (universal_newlines (content f)), bm1)
                   else (None, bm1)))
         | _ \<Rightarrow> (None, bm1))"

definition expired :: "timelib \<Rightarrow> int \<Rightarrow> string \<times> stored_file \<Rightarrow> bool" where
  \<comment> \<open>The two tests of \<open>cleanup_old_backups\<close> on one file when nothing raises but
      \<open>strptime\<close>.\<close>
  "expired lib cutoff_date nf =
     (case strptime lib (replace_del ''.cfg'' (fst nf)) of
        Some file_timestamp \<Rightarrow> file_timestamp < cutoff_date
      | None \<Rightarrow> mtime (snd nf) < cutoff_date)"

fun cleanup_files ::
  "timelib \<Rightarrow> int \<Rightarrow> string \<Rightarrow> (string \<times> stored_file) list \<Rightarrow> directory \<Rightarrow> io_error option \<times> directory"
where
  \<comment> \<open>\<open>for file in files\<close> of \<open>cleanup_old_backups\<close>; the list is the snapshot that
      \<open>os.listdir\<close> returned, the directory is its current state. \<open>os.remove\<close> raises
      in a directory that cannot be written and on an entry that is a directory.\<close>
  "cleanup_files lib cutoff_date dev [] d = (None, d)"
| "cleanup_files lib cutoff_date dev ((file, f) # rest) d =
     (if endswith file ''.cfg'' then
        (let remove = d\<lparr>files := remove_entry file (files d)\<rparr>;
             fallback =
               (if mtime f < cutoff_date
                then (if writable d \<and> is_file f
                      then cleanup_files lib cutoff_date dev rest remove
                      else (Some (RemoveError dev file), d))
                else cleanup_files lib cutoff_date dev rest d)
         in case strptime lib (replace_del ''.cfg'' file) of
              Some file_timestamp \<Rightarrow>
                (if file_timestamp < cutoff_date
                 then (if writable d \<and> is_file f
                       then cleanup_files lib cutoff_date dev rest remove
                       else fallback)
                 else cleanup_files lib cutoff_date dev rest d)
            | None \<Rightarrow> fallback)
      else cleanup_files lib cutoff_date dev rest d)"

fun cleanup_devices ::
  "timelib \<Rightarrow> int \<Rightarrow> string list \<Rightarrow> backup_manager \<Rightarrow> io_error option \<times> backup_manager"
where
  \<comment> \<open>\<open>for dev in devices\<close> of \<open>cleanup_old_backups\<close>\<close>
  "cleanup_devices lib cutoff_date [] bm = (None, bm)"
| "cleanup_devices lib cutoff_date (dev # rest) bm =
     (case map_of (backup_dir bm) dev of
        Some (DeviceDir d) \<Rightarrow>
          (if \<not> listable d then (Some (ListError dev), bm)
           else
             (case cleanup_files lib cutoff_date dev (files d) d of
                (None, d') \<Rightarrow>
                  cleanup_devices lib cutoff_date rest
                    (bm\<lparr>backup_dir := update_entry dev (DeviceDir d') (backup_dir bm)\<rparr>)
              | (Some e, d') \<Rightarrow>
                  (Some e, bm\<lparr>backup_dir := update_entry dev (DeviceDir d') (backup_dir bm)\<rparr>)))
      | _ \<Rightarrow> cleanup_devices lib cutoff_date rest bm)"

definition cleanup_old_backups ::
  "timelib \<Rightarrow> int \<Rightarrow> string option \<Rightarrow> backup_manager \<Rightarrow> io_error option \<times> backup_manager"
where
  \<comment> \<open>\<open>now\<close> is the reading of \<open>datetime.now()\<close>; \<open>Some e\<close> is an exception that
      leaves the method. The cutoff is computed before any device is visited. A device
      name given by the caller is a path component; the names that \<open>os.listdir\<close>
      returns always are.\<close>
  "cleanup_old_backups lib now device_name bm =
     (let devs = (case device_name of
                    Some dev \<Rightarrow> (if dev \<noteq> [] then [dev] else map fst (backup_dir bm))
                  | None \<Rightarrow> map fst (backup_dir bm))
      in case cutoff_of now (retention_days bm) of
           None \<Rightarrow> (Some OverflowError, bm)
         | Some cutoff_date \<Rightarrow> cleanup_devices lib cutoff_date devs bm)"

section \<open>scheduler.py\<close>

text \<open>
  The orchestrator works on the device manager and the backup manager together. The
  environment gives the network, the successive readings of \<open>datetime.now()\<close> made
  by \<open>backup_config\<close> and \<open>cleanup_old_backups\<close>, the library parameters and the
  configured capture command. Every call of \<open>send_alert\<close> is logged with the device
  and the diff result it receives (the summary it also receives is a function of that
  result). The last parameter, \<open>off_store\<close>, stands for the store steps of the
  pipeline of a device whose name is not a path component: they work on a path that
  the store of the model does not hold, and the model says nothing about them.
\<close>

record world =
  device_mgr :: device_manager
  backup_mgr :: backup_manager
  n_now :: nat
  alerts :: "(string \<times> diff_result) list"

record environment =
  network_of :: network
  clock_of :: "nat \<Rightarrow> int"
  timelib_of :: timelib
  hunks_of :: "string list \<Rightarrow> string list \<Rightarrow> string list"
  command_of :: string
  off_store :: "string \<Rightarrow> string \<Rightarrow> world \<Rightarrow> world"

definition get_config ::
  "network \<Rightarrow> string \<Rightarrow> string \<Rightarrow> device_manager \<Rightarrow> string option \<times> device_manager"
where
  \<comment> \<open>\<open>DeviceManager.get_config\<close>; \<open>command\<close> is \<open>backup_config['command']\<close>.\<close>
  "get_config net command device_name dm = execute_command net device_name command True dm"

definition backup_device :: "environment \<Rightarrow> string \<Rightarrow> world \<Rightarrow> world" where
  \<comment> \<open>\<open>BackupScheduler._backup_device\<close>. No operation of the model raises inside it,
      so its handler, which logs and raises again, has no branch here. The steps on
      the store are those of a device name that is a path component; for any other
      name they are the parameter \<open>off_store\<close>.\<close>
  "backup_device env device_name w =
     (case get_config (network_of env) (command_of env) device_name (device_mgr w) of
        (config_content, dm1) \<Rightarrow>
          (let w1 = w\<lparr>device_mgr := dm1\<rparr>
           in if config_content = None \<or> config_content = Some [] then w1
              else if \<not> path_component device_name
                then off_store env device_name (the config_content) w1
              else
                let latest_backup = get_latest_backup (timelib_of env) device_name (backup_mgr w1)
                in case backup_config (timelib_of env) (clock_of env (n_now w1)) device_name
                          (the config_content) (backup_mgr w1) of
                     (backup_file, bm1) \<Rightarrow>
                       (let w2 = w1\<lparr>backup_mgr := bm1, n_now := n_now w1 + 1\<rparr>
                        in if backup_file = None then w2
                           else
                             (case latest_backup of
                                None \<Rightarrow> w2
                              | Some latest \<Rightarrow>
                                  (case get_backup_content device_name latest bm1 of
                                     (old_config, bm2) \<Rightarrow>
                                       (let w3 = w2\<lparr>backup_mgr := bm2\<rparr>
                                        in if old_config = None \<or> old_config = Some [] then w3
                                           else
                                             let diff_result =
                                                   compare_configs (hunks_of env)
                                                     (the old_config) (the config_content)
                                             in if has_changes diff_result
                                                then w3\<lparr>alerts := alerts w3
                                                            @ [(device_name, diff_result)]\<rparr>
                                                else w3))))))"

fun backup_loop ::
  "(string \<Rightarrow> world \<Rightarrow> bool \<times> world) \<Rightarrow> string list \<Rightarrow> nat \<Rightarrow> nat \<Rightarrow> world
     \<Rightarrow> nat \<times> nat \<times> world"
where
  \<comment> \<open>\<open>for device_name in devices\<close> of \<open>backup_all_devices\<close>, for a pipeline that
      returns \<open>True\<close> when it raises.\<close>
  "backup_loop pipeline [] success_count fail_count w = (success_count, fail_count, w)"
| "backup_loop pipeline (device_name # rest) success_count fail_count w =
     (case pipeline device_name w of
        (False, w') \<Rightarrow> backup_loop pipeline rest (success_count + 1) fail_count w'
      | (True, w') \<Rightarrow> backup_loop pipeline rest success_count (fail_count + 1) w')"

definition prune :: "environment \<Rightarrow> world \<Rightarrow> world" where
  \<comment> \<open>The guarded call of \<open>cleanup_old_backups()\<close> that ends a run: an exception is
      logged and dropped.\<close>
  "prune env w =
     (case cleanup_old_backups (timelib_of env) (clock_of env (n_now w)) None (backup_mgr w) of
        (e, bm') \<Rightarrow> w\<lparr>backup_mgr := bm', n_now := n_now w + 1\<rparr>)"

definition backup_all_devices_with ::
  "(string \<Rightarrow> world \<Rightarrow> bool \<times> world) \<Rightarrow> environment \<Rightarrow> world \<Rightarrow> nat \<times> nat \<times> world"
where
  \<comment> \<open>\<open>backup_all_devices\<close> over any per-device pipeline; the result carries the two
      counters that the source logs.\<close>
  "backup_all_devices_with pipeline env w =
     (let devs = map fst (devices (device_mgr w))
      in if devs = [] then (0, 0, w)
         else case backup_loop pipeline devs 0 0 w of
                (success_count, fail_count, w1) \<Rightarrow> (success_count, fail_count, prune env w1))"

definition backup_all_devices :: "environment \<Rightarrow> world \<Rightarrow> nat \<times> nat \<times> world" where
  "backup_all_devices env w =
     backup_all_devices_with (\<lambda>device_name w'. (False, backup_device env device_name w')) env w"

section \<open>Predicates of the statements\<close>

definition volatile_line :: "string \<Rightarrow> bool" where
  \<comment> \<open>The lines the filter drops, in closed form.\<close>
  "volatile_line line =
     (let s = strip (lower line)
      in if s = [] \<or> startswith s ''!''
         then str_contains ''!last'' s \<or> str_contains ''!nvram'' s
         else str_contains ''clock'' s \<or> str_contains ''version '' s)"

definition spec_carries_marker :: "string \<Rightarrow> bool" where
  \<comment> \<open>From the specification's words: a line carrying clock state, an NTP clock-period
      or a last-change or NVRAM timestamp marker, matched case-insensitively.\<close>
  "spec_carries_marker line =
     (let s = lower line
      in str_contains ''clock'' s \<or> str_contains ''ntp clock-period'' s
         \<or> str_contains ''last configuration change'' s
         \<or> str_contains ''nvram config last updated'' s)"

subsection \<open>Reading the trace of the device manager\<close>

definition sleeps_and_opens :: "event list \<Rightarrow> event list" where
  \<comment> \<open>The sleeps and the open calls of a trace, in their order.\<close>
  "sleeps_and_opens es =
     filter (\<lambda>e. case e of Sleep _ \<Rightarrow> True | OpenSession _ _ \<Rightarrow> True | _ \<Rightarrow> False) es"

definition slept :: "event list \<Rightarrow> int list" where
  \<comment> \<open>The arguments of the calls of \<open>time.sleep\<close>, in their order.\<close>
  "slept es = concat (map (\<lambda>e. case e of Sleep d \<Rightarrow> [d] | _ \<Rightarrow> []) es)"

definition no_send :: "event list \<Rightarrow> bool" where
  \<comment> \<open>No command is sent in these events.\<close>
  "no_send es = (\<forall>e \<in> set es. case e of SendCommand _ _ \<Rightarrow> False | _ \<Rightarrow> True)"

definition attempt_events :: "network \<Rightarrow> int \<Rightarrow> nat \<Rightarrow> int \<Rightarrow> event list" where
  \<comment> \<open>What attempt \<open>k\<close> of a connect call shows of sleeps and opens, for a call that
      starts when \<open>n0\<close> sessions have been opened before and whose delay is \<open>d\<close>.\<close>
  "attempt_events net d n0 k =
     (if k > 1 then [Sleep (d * (k - 1))] else [])
     @ [OpenSession (n0 + nat (k - 1)) (open_result net (n0 + nat (k - 1)))]"

definition retry_budget :: "int option \<Rightarrow> device_manager \<Rightarrow> int" where
  \<comment> \<open>The retry count a call of \<open>connect\<close> works with.\<close>
  "retry_budget retry_count_arg dm =
     (case retry_count_arg of None \<Rightarrow> connection_retries dm | Some r \<Rightarrow> r)"

definition after_open :: "network \<Rightarrow> int \<Rightarrow> device_manager \<Rightarrow> device_manager" where
  \<comment> \<open>The state after the sleep (if any) and the open call of one attempt.\<close>
  "after_open net attempt dm =
     dm\<lparr>n_open := n_open dm + 1,
        trace := trace dm
          @ (if attempt > 1 then [Sleep (retry_delay dm * (attempt - 1))] else [])
          @ [OpenSession (n_open dm) (open_result net (n_open dm))]\<rparr>"

definition after_probe :: "network \<Rightarrow> device_manager \<Rightarrow> device_manager" where
  \<comment> \<open>The state after one liveness probe.\<close>
  "after_probe net dm = snd (check_connection net dm)"

definition after_send :: "network \<Rightarrow> string \<Rightarrow> device_manager \<Rightarrow> device_manager" where
  \<comment> \<open>The state after one \<open>send_command\<close> of the command.\<close>
  "after_send net cmd dm =
     dm\<lparr>n_send := n_send dm + 1,
        trace := trace dm @ [SendCommand cmd (send_result net (n_send dm))]\<rparr>"

definition loop_start :: "network \<Rightarrow> string \<Rightarrow> device_manager \<Rightarrow> device_manager" where
  \<comment> \<open>The state in which \<open>connect\<close> enters its loop: a cached session that failed its
      probe has been disconnected and dropped.\<close>
  "loop_start net dev dm =
     (case connections dm dev of
        None \<Rightarrow> dm
      | Some c \<Rightarrow> drop_session dev c (after_probe net dm))"

subsection \<open>Example networks and devices\<close>

definition r1_only :: "(string \<times> device_info) list" where
  "r1_only = [(''R1'', \<lparr>ip = ''10.0.0.1'', device_type = ''cisco_ios'', username = ''admin'',
                        password = ''secret''\<rparr>)]"

definition net_timeouts :: network where
  \<comment> \<open>Every open call times out.\<close>
  "net_timeouts = \<lparr>open_result = (\<lambda>n. TimeoutExc), probe_result = (\<lambda>n. True),
                   send_result = (\<lambda>n. Inr [])\<rparr>"

definition net_auth :: network where
  \<comment> \<open>Every open call is rejected for its credentials.\<close>
  "net_auth = \<lparr>open_result = (\<lambda>n. AuthExc), probe_result = (\<lambda>n. True),
               send_result = (\<lambda>n. Inr [])\<rparr>"

definition net_timeout_then_auth :: network where
  \<comment> \<open>The first open call times out, the later ones are rejected for their
      credentials.\<close>
  "net_timeout_then_auth =
     \<lparr>open_result = (\<lambda>n. if n = 0 then TimeoutExc else AuthExc), probe_result = (\<lambda>n. True),
      send_result = (\<lambda>n. Inr [])\<rparr>"

definition net_bad_command :: network where
  \<comment> \<open>Sessions open and answer the probe; every command fails with an error that
      names neither a connection, a timeout nor a closed socket.\<close>
  "net_bad_command =
     \<lparr>open_result = (\<lambda>n. Opened), probe_result = (\<lambda>n. True),
      send_result = (\<lambda>n. Inl ''Search pattern never detected in send_command_expect: R1#'')\<rparr>"

definition net_flaky_send :: network where
  \<comment> \<open>Sessions open and answer the probe; the first command fails on a closed
      socket, the later ones succeed.\<close>
  "net_flaky_send =
     \<lparr>open_result = (\<lambda>n. Opened), probe_result = (\<lambda>n. True),
      send_result = (\<lambda>n. if n = 0 then Inl ''Socket is closed'' else Inr ''hostname R1'')\<rparr>"

subsection \<open>Reading the backup store\<close>

definition record_expired :: "timelib \<Rightarrow> int \<Rightarrow> string \<times> stored_file \<Rightarrow> bool" where
  \<comment> \<open>A backup record (a file named \<open>*.cfg\<close>) whose timestamp predates the cutoff.\<close>
  "record_expired lib cutoff_date nf = (endswith (fst nf) ''.cfg'' \<and> expired lib cutoff_date nf)"

definition prune_dir :: "timelib \<Rightarrow> int \<Rightarrow> directory \<Rightarrow> directory" where
  \<comment> \<open>A device directory without its expired records.\<close>
  "prune_dir lib cutoff_date d =
     d\<lparr>files := filter (\<lambda>nf. \<not> record_expired lib cutoff_date nf) (files d)\<rparr>"

fun prune_node :: "timelib \<Rightarrow> int \<Rightarrow> node \<Rightarrow> node" where
  "prune_node lib cutoff_date PlainFile = PlainFile"
| "prune_node lib cutoff_date (DeviceDir d) = DeviceDir (prune_dir lib cutoff_date d)"

definition pruned :: "timelib \<Rightarrow> int \<Rightarrow> string set \<Rightarrow> backup_manager \<Rightarrow> backup_manager" where
  \<comment> \<open>The store with the directories of the devices \<open>devs\<close> pruned.\<close>
  "pruned lib cutoff_date devs bm =
     bm\<lparr>backup_dir := map (\<lambda>(n, node). if n \<in> devs then (n, prune_node lib cutoff_date node)
                                       else (n, node)) (backup_dir bm)\<rparr>"

fun healthy_node :: "node \<Rightarrow> bool" where
  "healthy_node PlainFile = True"
| "healthy_node (DeviceDir d) =
     (listable d \<and> writable d \<and> distinct (map fst (files d))
      \<and> list_all (\<lambda>e. is_file (snd e)) (files d))"

definition healthy :: "backup_manager \<Rightarrow> bool" where
  \<comment> \<open>A store without I/O failures: names are distinct, as in any directory, and every
      device directory can be listed and written and holds regular files only.\<close>
  "healthy bm = (distinct (map fst (backup_dir bm)) \<and> list_all (\<lambda>e. healthy_node (snd e)) (backup_dir bm))"

definition prune_all :: "timelib \<Rightarrow> int \<Rightarrow> backup_manager \<Rightarrow> backup_manager" where
  \<comment> \<open>The store with every device directory pruned.\<close>
  "prune_all lib cutoff_date bm =
     bm\<lparr>backup_dir := map (\<lambda>(n, node). (n, prune_node lib cutoff_date node)) (backup_dir bm)\<rparr>"

definition jan_1_2020 :: int where
  \<comment> \<open>2020-01-01 00:00:00, 737424 days after \<open>datetime.min\<close>\<close>
  "jan_1_2020 = 63713433600000000"

definition feb_1_2020 :: int where
  "feb_1_2020 = 63716112000000000"

definition mar_1_2020 :: int where
  "mar_1_2020 = 63718617600000000"

definition mar_2_2020 :: int where
  "mar_2_2020 = 63718704000000000"

definition example_timelib :: timelib where
  \<comment> \<open>The library functions on the three datetimes the examples use: 2020-01-01,
      2020-03-01 and 2020-03-02, each at 00:00:00.\<close>
  "example_timelib =
     \<lparr>strptime = (\<lambda>s. if s = ''20200101_000000'' then Some jan_1_2020
                     else if s = ''20200301_000000'' then Some mar_1_2020
                     else if s = ''20200302_000000'' then Some mar_2_2020
                     else None),
      strftime_key = (\<lambda>t. if t = jan_1_2020 then ''20200101_000000''
                         else if t = mar_1_2020 then ''20200301_000000''
                         else ''20200302_000000''),
      strftime_iso = (\<lambda>t. if t = jan_1_2020 then ''2020-01-01 00:00:00''
                         else if t = mar_1_2020 then ''2020-03-01 00:00:00''
                         else ''2020-03-02 00:00:00'')\<rparr>"

definition old_file :: stored_file where
  "old_file = \<lparr>content = ''hostname R1'', mtime = jan_1_2020, readable = True, is_file = True\<rparr>"

definition recent_file :: stored_file where
  "recent_file = \<lparr>content = ''hostname R1'', mtime = mar_1_2020, readable = True, is_file = True\<rparr>"

definition store_ok :: backup_manager where
  "store_ok =
     \<lparr>backup_dir =
        [(''R1'', DeviceDir \<lparr>listable = True, writable = True,
                            files = [(''20200101_000000.cfg'', old_file)]\<rparr>),
         (''R2'', DeviceDir \<lparr>listable = True, writable = True,
                            files = [(''20200101_000000.cfg'', old_file),
                                     (''20200301_000000.cfg'', recent_file)]\<rparr>)],
      retention_days = 30\<rparr>"

definition store_r1_unlistable :: backup_manager where
  "store_r1_unlistable =
     \<lparr>backup_dir =
        [(''R1'', DeviceDir \<lparr>listable = False, writable = True,
                            files = [(''20200101_000000.cfg'', old_file)]\<rparr>),
         (''R2'', DeviceDir \<lparr>listable = True, writable = True,
                            files = [(''20200101_000000.cfg'', old_file),
                                     (''20200301_000000.cfg'', recent_file)]\<rparr>)],
      retention_days = 30\<rparr>"

subsection \<open>Reading the orchestrator\<close>

definition device_files :: "backup_manager \<Rightarrow> string \<Rightarrow> (string \<times> stored_file) list" where
  \<comment> \<open>The files in the directory of a device (none when it has no directory).\<close>
  "device_files bm dev =
     (case map_of (backup_dir bm) dev of Some (DeviceDir d) \<Rightarrow> files d | _ \<Rightarrow> [])"

definition prior_content :: "backup_manager \<Rightarrow> string \<Rightarrow> string \<Rightarrow> string option" where
  \<comment> \<open>The text that reading a stored file returns, when it exists and can be read.\<close>
  "prior_content bm dev name =
     (case map_of (device_files bm dev) name of
        Some f \<Rightarrow> (if readable f \<and> is_file f then Some (universal_newlines (content f))
                   else None)
      | None \<Rightarrow> None)"

definition alert_for ::
  "(string list \<Rightarrow> string list \<Rightarrow> string list) \<Rightarrow> string \<Rightarrow> string option \<Rightarrow> string
     \<Rightarrow> (string \<times> diff_result) list" where
  \<comment> \<open>The calls of \<open>send_alert\<close> a pipeline makes for a prior content and a capture.\<close>
  "alert_for hunks dev prior captured =
     (case prior of
        None \<Rightarrow> []
      | Some old \<Rightarrow>
          (if old \<noteq> [] \<and> has_changes (compare_configs hunks old captured)
           then [(dev, compare_configs hunks old captured)] else []))"

fun outcomes :: "(string \<Rightarrow> world \<Rightarrow> bool \<times> world) \<Rightarrow> string list \<Rightarrow> world \<Rightarrow> (bool \<times> world) list"
where
  \<comment> \<open>What the pipeline of each device returns, each run in the world the one before
      it left.\<close>
  "outcomes pipeline [] w = []"
| "outcomes pipeline (d # ds) w = pipeline d w # outcomes pipeline ds (snd (pipeline d w))"

definition world0 :: "(string \<times> device_info) list \<Rightarrow> world" where
  \<comment> \<open>A fresh system: no session, no backup, retention of 30 days.\<close>
  "world0 devs =
     \<lparr>device_mgr = init_device_manager devs,
      backup_mgr = \<lparr>backup_dir = [], retention_days = 30\<rparr>, n_now = 0, alerts = []\<rparr>"

definition r1_r2 :: "(string \<times> device_info) list" where
  "r1_r2 = [(''R1'', \<lparr>ip = ''10.0.0.1'', device_type = ''cisco_ios'', username = ''admin'',
                      password = ''secret''\<rparr>),
            (''R2'', \<lparr>ip = ''10.0.0.2'', device_type = ''cisco_ios'', username = ''admin'',
                      password = ''secret''\<rparr>)]"

definition env_steady :: environment where
  \<comment> \<open>Sessions open, the device always answers \<open>hostname R1\<close>; the clock reads
      2020-01-01, then 2020-03-01, then 2020-03-02.\<close>
  "env_steady =
     \<lparr>network_of = \<lparr>open_result = (\<lambda>n. Opened), probe_result = (\<lambda>n. True),
                     send_result = (\<lambda>n. Inr ''hostname R1'')\<rparr>,
      clock_of = (\<lambda>n. if n = 0 then jan_1_2020 else if n = 1 then mar_1_2020 else mar_2_2020),
      timelib_of = example_timelib,
      hunks_of = (\<lambda>a b. []),
      command_of = ''show running-config'',
      off_store = (\<lambda>device_name config_content w. w)\<rparr>"

definition env_same_second :: environment where
  \<comment> \<open>The device answers \<open>hostname R1\<close>, then \<open>hostname R2\<close>; the clock stands still.
      The hunks are those \<open>difflib\<close> prints for these two texts.\<close>
  "env_same_second =
     \<lparr>network_of = \<lparr>open_result = (\<lambda>n. Opened), probe_result = (\<lambda>n. True),
                     send_result = (\<lambda>n. if n = 0 then Inr ''hostname R1''
                                         else Inr ''hostname R2'')\<rparr>,
      clock_of = (\<lambda>n. jan_1_2020),
      timelib_of = example_timelib,
      hunks_of = (\<lambda>a b. [''@@ -1 +1 @@'', ''-hostname R1'', ''+hostname R2'']),
      command_of = ''show running-config'',
      off_store = (\<lambda>device_name config_content w. w)\<rparr>"

definition env_empty_output :: environment where
  \<comment> \<open>The command succeeds with an empty output.\<close>
  "env_empty_output =
     \<lparr>network_of = \<lparr>open_result = (\<lambda>n. Opened), probe_result = (\<lambda>n. True),
                     send_result = (\<lambda>n. Inr [])\<rparr>,
      clock_of = (\<lambda>n. jan_1_2020),
      timelib_of = example_timelib,
      hunks_of = (\<lambda>a b. []),
      command_of = ''show running-config'',
      off_store = (\<lambda>device_name config_content w. w)\<rparr>"

definition env_r1_down :: environment where
  \<comment> \<open>The first three open calls time out (the three attempts for R1), the later ones
      succeed.\<close>
  "env_r1_down =
     \<lparr>network_of = \<lparr>open_result = (\<lambda>n. if n < 3 then TimeoutExc else Opened),
                     probe_result = (\<lambda>n. True),
                     send_result = (\<lambda>n. Inr ''hostname R2'')\<rparr>,
      clock_of = (\<lambda>n. if n = 0 then mar_1_2020 else mar_2_2020),
      timelib_of = example_timelib,
      hunks_of = (\<lambda>a b. []),
      command_of = ''show running-config'',
      off_store = (\<lambda>device_name config_content w. w)\<rparr>"

definition env_crlf :: environment where
  \<comment> \<open>The device always answers the two lines \<open>a\<close> and \<open>b\<close> separated by CR LF; the
      clock reads 2020-01-01, then 2020-03-01. The hunks are those \<open>difflib\<close> prints
      for the lines of the text read back and of the text captured.\<close>
  "env_crlf =
     \<lparr>network_of = \<lparr>open_result = (\<lambda>n. Opened), probe_result = (\<lambda>n. True),
                     send_result = (\<lambda>n. Inr (''a'' @ [CHR 0x0D, CHR 0x0A] @ ''b''))\<rparr>,
      clock_of = (\<lambda>n. if n = 0 then jan_1_2020 else mar_1_2020),
      timelib_of = example_timelib,
      hunks_of = (\<lambda>a b. [''@@ -1,2 +1,2 @@'', ''-a\<newline>'', ''+a'' @ [CHR 0x0D, CHR 0x0A], '' b'']),
      command_of = ''show running-config'',
      off_store = (\<lambda>device_name config_content w. w)\<rparr>"

definition world_old_r2 :: world where
  \<comment> \<open>The devices R1 and R2, no session, and one record of R2 from 2020-01-01.\<close>
  "world_old_r2 =
     \<lparr>device_mgr = init_device_manager r1_r2,
      backup_mgr =
        \<lparr>backup_dir = [(''R2'', DeviceDir \<lparr>listable = True, writable = True,
                                            files = [(''20200101_000000.cfg'', old_file)]\<rparr>)],
         retention_days = 30\<rparr>,
      n_now = 0, alerts = []\<rparr>"

definition pipeline_r1_raises :: "environment \<Rightarrow> string \<Rightarrow> world \<Rightarrow> bool \<times> world" where
  \<comment> \<open>A pipeline that raises for R1 after it has run.\<close>
  "pipeline_r1_raises env d s =
     (if d = ''R1'' then (True, backup_device env d s) else (False, backup_device env d s))"

section \<open>Properties of the diff engine\<close>

lemma str_contains_sublist: "str_contains p s \<longleftrightarrow> sublist p s"
  by (induction s) (auto simp: sublist_Cons_right)

lemma lower_char_not_upper:
  "\<not> (65 \<le> (of_char (lower_char c) :: nat) \<and> (of_char (lower_char c) :: nat) \<le> 90)"
  unfolding lower_char_def Let_def by (auto simp: of_char_of)

lemma set_strip: "set (strip s) \<subseteq> set s"
  unfolding strip_def by (auto dest!: set_dropWhileD)

lemma stripped_lower_no_upper:
  assumes "c \<in> set (strip (lower l))"
  shows "\<not> (65 \<le> (of_char c :: nat) \<and> (of_char c :: nat) \<le> 90)"
proof -
  from assms set_strip have "c \<in> set (lower l)" by blast
  then obtain d where "c = lower_char d" by (auto simp: lower_def)
  then show ?thesis using lower_char_not_upper by simp
qed

lemma upper_pattern_never_matches:
  assumes "u \<in> set p" and "65 \<le> (of_char u :: nat)" and "(of_char u :: nat) \<le> 90"
  shows "\<not> str_contains p (strip (lower l))"
proof
  assume "str_contains p (strip (lower l))"
  then have "sublist p (strip (lower l))" by (simp add: str_contains_sublist)
  then have "set p \<subseteq> set (strip (lower l))" by (rule set_mono_sublist)
  with assms(1) have "u \<in> set (strip (lower l))" by blast
  from stripped_lower_no_upper[OF this] assms(2,3) show False by simp
qed

lemma ntp_implies_clock:
  assumes "str_contains ''ntp clock-period'' s"
  shows "str_contains ''clock'' s"
proof -
  have "sublist ''clock'' ''ntp clock-period''"
    unfolding sublist_def by (rule exI[of _ "''ntp ''"], rule exI[of _ "''-period''"]) simp
  with assms show ?thesis
    unfolding str_contains_sublist by (meson sublist_order.order.trans)
qed

lemma should_skip_patterns:
  "should_skip skip_patterns (strip (lower l)) \<longleftrightarrow>
     str_contains ''clock'' (strip (lower l)) \<or> str_contains ''version '' (strip (lower l))"
proof -
  have t: "\<not> str_contains ''!Time:'' (strip (lower l))"
    by (rule upper_pattern_never_matches[of "CHR ''T''"]) simp_all
  have c: "\<not> str_contains ''!Last configuration change'' (strip (lower l))"
    by (rule upper_pattern_never_matches[of "CHR ''L''"]) simp_all
  have n: "\<not> str_contains ''!NVRAM config last updated'' (strip (lower l))"
    by (rule upper_pattern_never_matches[of "CHR ''N''"]) simp_all
  show ?thesis
    using t c n ntp_implies_clock[of "strip (lower l)"]
    by (auto simp: skip_patterns_def)
qed

lemma filter_loop_filter:
  "filter_loop filtered lines = filtered @ filter (\<lambda>l. \<not> volatile_line l) lines"
proof (induction lines arbitrary: filtered)
  case Nil
  show ?case by simp
next
  case (Cons line rest)
  show ?case
    by (simp add: Cons.IH volatile_line_def Let_def should_skip_patterns)
qed

lemma filter_dynamic_lines_filter:
  "filter_dynamic_lines lines = filter (\<lambda>l. \<not> volatile_line l) lines"
  by (simp add: filter_dynamic_lines_def filter_loop_filter)

text \<open>
  C9. Comparing a text with itself reports no change: \<open>has_changes\<close> is false, the
  diff text is empty and the added and removed counts are zero, whatever the text and
  whatever the diff library would print.
\<close>

theorem compare_configs_same:
  "has_changes (compare_configs hunks A A) = False
   \<and> diff (compare_configs hunks A A) = []
   \<and> added_lines (compare_configs hunks A A) = 0
   \<and> removed_lines (compare_configs hunks A A) = 0"
  by (simp add: compare_configs_def no_changes_def)

theorem compare_configs_same_witness:
  "has_changes (compare_configs (\<lambda>a b. []) ''hostname r1'' ''hostname r1'') = False
   \<and> diff (compare_configs (\<lambda>a b. []) ''hostname r1'' ''hostname r1'') = []
   \<and> added_lines (compare_configs (\<lambda>a b. []) ''hostname r1'' ''hostname r1'') = 0
   \<and> removed_lines (compare_configs (\<lambda>a b. []) ''hostname r1'' ''hostname r1'') = 0"
  using compare_configs_same [of "\<lambda>a b. []" "''hostname r1''"] by simp

text \<open>
  C2 (as amended). The volatility filter keeps the lines in their order and drops
  exactly the lines of two kinds, judged on the lower-cased, trimmed line: a line that
  is neither blank nor starts with an exclamation mark and contains \<open>clock\<close> (hence
  also \<open>ntp clock-period\<close>) or \<open>version \<close>; and a line that starts with an
  exclamation mark and contains \<open>!last\<close> or \<open>!nvram\<close>. Every other line is kept,
  blank lines and other comment lines among them.
\<close>

theorem filter_dynamic_lines_drops_exactly:
  "filter_dynamic_lines lines = filter (\<lambda>l. \<not> volatile_line l) lines"
  by (rule filter_dynamic_lines_filter)

theorem filter_dynamic_lines_drops_exactly_witness:
  "filter_dynamic_lines
     [''hostname r1\<newline>'', ''clock timezone UTC 8\<newline>'', ''!\<newline>'', ''\<newline>'',
      ''!Last configuration change at 10:00\<newline>'', ''! clock comment\<newline>'',
      ''NTP Clock-Period 17179\<newline>'']
   = filter (\<lambda>l. \<not> volatile_line l)
     [''hostname r1\<newline>'', ''clock timezone UTC 8\<newline>'', ''!\<newline>'', ''\<newline>'',
      ''!Last configuration change at 10:00\<newline>'', ''! clock comment\<newline>'',
      ''NTP Clock-Period 17179\<newline>'']
   \<and> filter (\<lambda>l. \<not> volatile_line l)
     [''hostname r1\<newline>'', ''clock timezone UTC 8\<newline>'', ''!\<newline>'', ''\<newline>'',
      ''!Last configuration change at 10:00\<newline>'', ''! clock comment\<newline>'',
      ''NTP Clock-Period 17179\<newline>'']
   = [''hostname r1\<newline>'', ''!\<newline>'', ''\<newline>'', ''! clock comment\<newline>'']"
proof -
  have "filter (\<lambda>l. \<not> volatile_line l)
     [''hostname r1\<newline>'', ''clock timezone UTC 8\<newline>'', ''!\<newline>'', ''\<newline>'',
      ''!Last configuration change at 10:00\<newline>'', ''! clock comment\<newline>'',
      ''NTP Clock-Period 17179\<newline>'']
   = [''hostname r1\<newline>'', ''!\<newline>'', ''\<newline>'', ''! clock comment\<newline>'']"
    by code_simp
  then show ?thesis
    using filter_dynamic_lines_drops_exactly
      [of "[''hostname r1\<newline>'', ''clock timezone UTC 8\<newline>'', ''!\<newline>'', ''\<newline>'',
            ''!Last configuration change at 10:00\<newline>'', ''! clock comment\<newline>'',
            ''NTP Clock-Period 17179\<newline>'']"]
    by simp
qed

text \<open>
  C2, as it was stated, fails: a line that only names the software version carries
  none of the markers of the claim and is dropped all the same.
\<close>

theorem filter_drops_version_line_counterexample:
  "filter_dynamic_lines [''hostname r1\<newline>'', ''version 15.2\<newline>''] = [''hostname r1\<newline>'']
   \<and> \<not> spec_carries_marker ''version 15.2\<newline>''"
  by code_simp

text \<open>
  C3 (as amended). When the line lists of two texts (each text trimmed, then split
  with the line ends kept, as \<open>compare_configs\<close> does) differ in one line only, and
  that line is in both texts one that the filter drops (not a comment and containing
  \<open>clock\<close> or \<open>version \<close>, or a comment containing \<open>!last\<close> or \<open>!nvram\<close>), then
  \<open>compare_configs\<close> reports no change, with an empty diff and zero counts.
\<close>

theorem compare_configs_ignores_volatile_line:
  assumes "splitlines True (strip old) = pre @ [l1] @ post"
    and "splitlines True (strip new) = pre @ [l2] @ post"
    and "volatile_line l1" and "volatile_line l2"
  shows "has_changes (compare_configs hunks old new) = False
         \<and> diff (compare_configs hunks old new) = []
         \<and> added_lines (compare_configs hunks old new) = 0
         \<and> removed_lines (compare_configs hunks old new) = 0"
proof -
  have "filter_dynamic_lines (splitlines True (strip old)) =
        filter_dynamic_lines (splitlines True (strip new))"
    using assms by (simp add: filter_dynamic_lines_filter)
  then have "compare_configs hunks old new = no_changes"
    by (simp add: compare_configs_def Let_def)
  then show ?thesis by (simp add: no_changes_def)
qed

theorem compare_configs_ignores_volatile_line_witness:
  "splitlines True (strip ''hostname r1\<newline>clock timezone UTC 8\<newline>interface Vlan1\<newline>'')
     = [''hostname r1\<newline>''] @ [''clock timezone UTC 8\<newline>''] @ [''interface Vlan1'']
   \<and> splitlines True (strip ''hostname r1\<newline>clock timezone UTC 0\<newline>interface Vlan1\<newline>'')
     = [''hostname r1\<newline>''] @ [''clock timezone UTC 0\<newline>''] @ [''interface Vlan1'']
   \<and> volatile_line ''clock timezone UTC 8\<newline>''
   \<and> volatile_line ''clock timezone UTC 0\<newline>''
   \<and> has_changes (compare_configs (\<lambda>a b. [])
         ''hostname r1\<newline>clock timezone UTC 8\<newline>interface Vlan1\<newline>''
         ''hostname r1\<newline>clock timezone UTC 0\<newline>interface Vlan1\<newline>'') = False"
proof -
  have a: "splitlines True (strip ''hostname r1\<newline>clock timezone UTC 8\<newline>interface Vlan1\<newline>'')
     = [''hostname r1\<newline>''] @ [''clock timezone UTC 8\<newline>''] @ [''interface Vlan1'']"
    by code_simp
  have b: "splitlines True (strip ''hostname r1\<newline>clock timezone UTC 0\<newline>interface Vlan1\<newline>'')
     = [''hostname r1\<newline>''] @ [''clock timezone UTC 0\<newline>''] @ [''interface Vlan1'']"
    by code_simp
  have c: "volatile_line ''clock timezone UTC 8\<newline>''" by code_simp
  have d: "volatile_line ''clock timezone UTC 0\<newline>''" by code_simp
  from compare_configs_ignores_volatile_line [OF a b c d, of "\<lambda>a b. []"] a b c d
  show ?thesis by blast
qed

text \<open>
  C3, as it was stated, fails for a comment line: it names the clock, the filter
  keeps every comment that has neither \<open>!last\<close> nor \<open>!nvram\<close>, and the two texts
  are reported as changed. The hunk lines are those that \<open>difflib\<close> prints for the
  two texts.
\<close>

theorem compare_configs_clock_comment_counterexample:
  "splitlines True (strip ''hostname r1\<newline>! clock synced at 10:00'')
     = [''hostname r1\<newline>''] @ [''! clock synced at 10:00''] @ []
   \<and> splitlines True (strip ''hostname r1\<newline>! clock synced at 11:00'')
     = [''hostname r1\<newline>''] @ [''! clock synced at 11:00''] @ []
   \<and> spec_carries_marker ''! clock synced at 10:00''
   \<and> spec_carries_marker ''! clock synced at 11:00''
   \<and> has_changes (compare_configs
         (\<lambda>a b. [''@@ -1,2 +1,2 @@'', '' hostname r1\<newline>'', ''-! clock synced at 10:00'',
                 ''+! clock synced at 11:00''])
         ''hostname r1\<newline>! clock synced at 10:00''
         ''hostname r1\<newline>! clock synced at 11:00'') = True"
  by code_simp

section \<open>Properties of the device manager\<close>

lemma sao_append [simp]: "sleeps_and_opens (xs @ ys) = sleeps_and_opens xs @ sleeps_and_opens ys"
  by (simp add: sleeps_and_opens_def)

lemma sao_simps [simp]:
  "sleeps_and_opens [] = []"
  "sleeps_and_opens (Sleep d # es) = Sleep d # sleeps_and_opens es"
  "sleeps_and_opens (OpenSession c x # es) = OpenSession c x # sleeps_and_opens es"
  "sleeps_and_opens (Probe b # es) = sleeps_and_opens es"
  "sleeps_and_opens (Disconnect c # es) = sleeps_and_opens es"
  "sleeps_and_opens (SendCommand cmd res # es) = sleeps_and_opens es"
  by (simp_all add: sleeps_and_opens_def)

lemma after_open_simps [simp]:
  "n_open (after_open net a dm) = n_open dm + 1"
  "n_probe (after_open net a dm) = n_probe dm"
  "n_send (after_open net a dm) = n_send dm"
  "retry_delay (after_open net a dm) = retry_delay dm"
  "connection_retries (after_open net a dm) = connection_retries dm"
  "devices (after_open net a dm) = devices dm"
  "connections (after_open net a dm) = connections dm"
  "trace (after_open net a dm) = trace dm
          @ (if a > 1 then [Sleep (retry_delay dm * (a - 1))] else [])
          @ [OpenSession (n_open dm) (open_result net (n_open dm))]"
  by (simp_all add: after_open_def)

lemma after_probe_simps [simp]:
  "n_open (after_probe net dm) = n_open dm"
  "n_probe (after_probe net dm) = n_probe dm + 1"
  "n_send (after_probe net dm) = n_send dm"
  "retry_delay (after_probe net dm) = retry_delay dm"
  "connection_retries (after_probe net dm) = connection_retries dm"
  "devices (after_probe net dm) = devices dm"
  "connections (after_probe net dm) = connections dm"
  "trace (after_probe net dm) = trace dm @ [Probe (probe_result net (n_probe dm))]"
  by (simp_all add: after_probe_def check_connection_def)

lemma check_connection_eq:
  "check_connection net dm = (probe_result net (n_probe dm), after_probe net dm)"
  by (simp add: after_probe_def check_connection_def)

lemma connect_loop_sleep_error:
  "a > 1 \<Longrightarrow> retry_delay dm * (a - 1) < 0 \<Longrightarrow>
   connect_loop net dev rc (a # rest) dm = connect_loop net dev rc rest dm"
  by simp

lemma connect_loop_retry:
  assumes "\<not> (a > 1 \<and> retry_delay dm * (a - 1) < 0)"
    and "open_result net (n_open dm) = TimeoutExc \<or> open_result net (n_open dm) = OtherExc"
  shows "connect_loop net dev rc (a # rest) dm = connect_loop net dev rc rest (after_open net a dm)"
  using assms by (auto simp: after_open_def Let_def)

lemma connect_loop_auth:
  assumes "\<not> (a > 1 \<and> retry_delay dm * (a - 1) < 0)"
    and "open_result net (n_open dm) = AuthExc"
  shows "connect_loop net dev rc (a # rest) dm = (None, after_open net a dm)"
  using assms by (auto simp: after_open_def Let_def)

lemma connect_loop_opened_ok:
  assumes "\<not> (a > 1 \<and> retry_delay dm * (a - 1) < 0)"
    and "open_result net (n_open dm) = Opened" and "probe_result net (n_probe dm)"
  shows "connect_loop net dev rc (a # rest) dm =
           (Some (n_open dm),
            (after_probe net (after_open net a dm))
              \<lparr>connections := (connections dm)(dev \<mapsto> n_open dm)\<rparr>)"
  using assms by (auto simp: after_open_def after_probe_def check_connection_def Let_def)

lemma connect_loop_opened_dead:
  assumes "\<not> (a > 1 \<and> retry_delay dm * (a - 1) < 0)"
    and "open_result net (n_open dm) = Opened" and "\<not> probe_result net (n_probe dm)"
  shows "connect_loop net dev rc (a # rest) dm =
           connect_loop net dev rc rest
             ((after_probe net (after_open net a dm))
                \<lparr>trace := trace (after_probe net (after_open net a dm)) @ [Disconnect (n_open dm)]\<rparr>)"
  using assms by (auto simp: after_open_def after_probe_def check_connection_def Let_def)

text \<open>One step of the loop, as a case distinction usable in inductions.\<close>
lemma connect_loop_cases:
  obtains (sleep_error) "a > 1" "retry_delay dm * (a - 1) < 0"
      "connect_loop net dev rc (a # rest) dm = connect_loop net dev rc rest dm"
  | (retry) "\<not> (a > 1 \<and> retry_delay dm * (a - 1) < 0)"
      "open_result net (n_open dm) = TimeoutExc \<or> open_result net (n_open dm) = OtherExc"
      "connect_loop net dev rc (a # rest) dm = connect_loop net dev rc rest (after_open net a dm)"
  | (auth) "\<not> (a > 1 \<and> retry_delay dm * (a - 1) < 0)"
      "open_result net (n_open dm) = AuthExc"
      "connect_loop net dev rc (a # rest) dm = (None, after_open net a dm)"
  | (ok) "\<not> (a > 1 \<and> retry_delay dm * (a - 1) < 0)"
      "open_result net (n_open dm) = Opened" "probe_result net (n_probe dm)"
      "connect_loop net dev rc (a # rest) dm =
           (Some (n_open dm),
            (after_probe net (after_open net a dm))
              \<lparr>connections := (connections dm)(dev \<mapsto> n_open dm)\<rparr>)"
  | (dead) "\<not> (a > 1 \<and> retry_delay dm * (a - 1) < 0)"
      "open_result net (n_open dm) = Opened" "\<not> probe_result net (n_probe dm)"
      "connect_loop net dev rc (a # rest) dm =
           connect_loop net dev rc rest
             ((after_probe net (after_open net a dm))
                \<lparr>trace := trace (after_probe net (after_open net a dm)) @ [Disconnect (n_open dm)]\<rparr>)"
proof (cases "a > 1 \<and> retry_delay dm * (a - 1) < 0")
  case True
  then show ?thesis using sleep_error connect_loop_sleep_error by blast
next
  case False
  show ?thesis
  proof (cases "open_result net (n_open dm)")
    case Opened
    then show ?thesis
      using False ok dead connect_loop_opened_ok[OF False Opened] connect_loop_opened_dead[OF False Opened]
      by (cases "probe_result net (n_probe dm)") blast+
  next
    case TimeoutExc
    then show ?thesis using False retry connect_loop_retry[OF False] by blast
  next
    case AuthExc
    then show ?thesis using False auth connect_loop_auth[OF False] by blast
  next
    case OtherExc
    then show ?thesis using False retry connect_loop_retry[OF False] by blast
  qed
qed

declare connect_loop.simps(2) [simp del]

lemma no_send_simps [simp]:
  "no_send []"
  "no_send (xs @ ys) = (no_send xs \<and> no_send ys)"
  "no_send (Sleep d # es) = no_send es"
  "no_send (OpenSession c x # es) = no_send es"
  "no_send (Probe b # es) = no_send es"
  "no_send (Disconnect c # es) = no_send es"
  "no_send (SendCommand cmd res # es) = False"
  by (auto simp: no_send_def)

text \<open>General facts about the loop, for any list of attempts.\<close>
lemma connect_loop_general:
  assumes "connect_loop net dev rc atts dm = (r, dm')"
  shows "devices dm' = devices dm \<and> connection_retries dm' = connection_retries dm
       \<and> retry_delay dm' = retry_delay dm \<and> n_send dm' = n_send dm
       \<and> n_open dm \<le> n_open dm' \<and> n_open dm' \<le> n_open dm + length atts
       \<and> (r = None \<longrightarrow> connections dm' = connections dm)
       \<and> (\<forall>c. r = Some c \<longrightarrow> connections dm' = (connections dm)(dev \<mapsto> c)
                                \<and> n_open dm < n_open dm')
       \<and> (\<exists>es. trace dm' = trace dm @ es \<and> no_send es
              \<and> (\<forall>c. r = Some c \<longrightarrow> OpenSession c Opened \<in> set es)
              \<and> (\<forall>c. OpenSession c AuthExc \<in> set es \<longrightarrow>
                     r = None \<and> (\<exists>es0. es = es0 @ [OpenSession c AuthExc]
                                  \<and> (\<forall>c'. OpenSession c' AuthExc \<notin> set es0))))"
  using assms
proof (induction atts arbitrary: dm)
  case Nil
  then show ?case by auto
next
  case (Cons a rest)
  show ?case
  proof (cases rule: connect_loop_cases[of a dm net dev rc rest])
    case sleep_error
    with Cons.prems have "connect_loop net dev rc rest dm = (r, dm')" by simp
    from Cons.IH[OF this] show ?thesis by auto
  next
    case retry
    with Cons.prems have run: "connect_loop net dev rc rest (after_open net a dm) = (r, dm')" by simp
    from Cons.IH[OF run] obtain es where
      es: "trace dm' = trace (after_open net a dm) @ es" "no_send es"
        "\<forall>c. r = Some c \<longrightarrow> OpenSession c Opened \<in> set es"
        "\<forall>c. OpenSession c AuthExc \<in> set es \<longrightarrow>
                     r = None \<and> (\<exists>es0. es = es0 @ [OpenSession c AuthExc]
                                  \<and> (\<forall>c'. OpenSession c' AuthExc \<notin> set es0))"
      by blast
    let ?pre = "(if a > 1 then [Sleep (retry_delay dm * (a - 1))] else [])
          @ [OpenSession (n_open dm) (open_result net (n_open dm))]"
    have t: "trace dm' = trace dm @ (?pre @ es)" using es(1) by simp
    have noauth: "\<forall>c'. OpenSession c' AuthExc \<notin> set ?pre" using retry(2) by auto
    have a: "\<forall>c. OpenSession c AuthExc \<in> set (?pre @ es) \<longrightarrow>
                     r = None \<and> (\<exists>es0. ?pre @ es = es0 @ [OpenSession c AuthExc]
                                  \<and> (\<forall>c'. OpenSession c' AuthExc \<notin> set es0))"
    proof (intro allI impI)
      fix c assume "OpenSession c AuthExc \<in> set (?pre @ es)"
      with noauth have "OpenSession c AuthExc \<in> set es" by auto
      with es(4) obtain es0 where "r = None" "es = es0 @ [OpenSession c AuthExc]"
        "\<forall>c'. OpenSession c' AuthExc \<notin> set es0" by blast
      with noauth show "r = None \<and> (\<exists>es0. ?pre @ es = es0 @ [OpenSession c AuthExc]
                                  \<and> (\<forall>c'. OpenSession c' AuthExc \<notin> set es0))"
        by (intro conjI exI[of _ "?pre @ es0"]) auto
    qed
    have ns: "no_send (?pre @ es)" using es(2) by simp
    have op: "\<forall>c. r = Some c \<longrightarrow> OpenSession c Opened \<in> set (?pre @ es)" using es(3) by auto
    from Cons.IH[OF run] t ns op a show ?thesis
      by (intro conjI exI[of _ "?pre @ es"]) (simp_all del: append_assoc)
  next
    case auth
    with Cons.prems have r: "r = None" "dm' = after_open net a dm" by auto
    let ?pre = "(if a > 1 then [Sleep (retry_delay dm * (a - 1))] else [])"
    have "trace dm' = trace dm @ (?pre @ [OpenSession (n_open dm) AuthExc])"
      using r auth(2) by simp
    moreover have "\<forall>c. OpenSession c AuthExc \<in> set (?pre @ [OpenSession (n_open dm) AuthExc]) \<longrightarrow>
        (\<exists>es0. ?pre @ [OpenSession (n_open dm) AuthExc] = es0 @ [OpenSession c AuthExc]
                                  \<and> (\<forall>c'. OpenSession c' AuthExc \<notin> set es0))"
      by auto
    ultimately show ?thesis using r
      by (intro conjI exI[of _ "?pre @ [OpenSession (n_open dm) AuthExc]"]) simp_all
  next
    case ok
    with Cons.prems have r: "r = Some (n_open dm)"
      "dm' = (after_probe net (after_open net a dm))\<lparr>connections := (connections dm)(dev \<mapsto> n_open dm)\<rparr>"
      by auto
    let ?es = "(if a > 1 then [Sleep (retry_delay dm * (a - 1))] else [])
          @ [OpenSession (n_open dm) Opened, Probe (probe_result net (n_probe dm))]"
    have "trace dm' = trace dm @ ?es" using r ok(2) by simp
    moreover have "no_send ?es" by simp
    moreover have "\<forall>c. OpenSession c AuthExc \<notin> set ?es" by auto
    moreover have "OpenSession (n_open dm) Opened \<in> set ?es" by simp
    ultimately show ?thesis using r
      by (intro conjI exI[of _ ?es]) simp_all
  next
    case dead
    let ?dmx = "(after_probe net (after_open net a dm))
                \<lparr>trace := trace (after_probe net (after_open net a dm)) @ [Disconnect (n_open dm)]\<rparr>"
    from dead Cons.prems have run: "connect_loop net dev rc rest ?dmx = (r, dm')" by simp
    from Cons.IH[OF run] obtain es where
      es: "trace dm' = trace ?dmx @ es" "no_send es"
        "\<forall>c. r = Some c \<longrightarrow> OpenSession c Opened \<in> set es"
        "\<forall>c. OpenSession c AuthExc \<in> set es \<longrightarrow>
                     r = None \<and> (\<exists>es0. es = es0 @ [OpenSession c AuthExc]
                                  \<and> (\<forall>c'. OpenSession c' AuthExc \<notin> set es0))"
      by blast
    let ?pre = "(if a > 1 then [Sleep (retry_delay dm * (a - 1))] else [])
          @ [OpenSession (n_open dm) Opened, Probe (probe_result net (n_probe dm)),
             Disconnect (n_open dm)]"
    have t: "trace dm' = trace dm @ (?pre @ es)" using es(1) dead(2) by simp
    have noauth: "\<forall>c'. OpenSession c' AuthExc \<notin> set ?pre" by auto
    have a: "\<forall>c. OpenSession c AuthExc \<in> set (?pre @ es) \<longrightarrow>
                     r = None \<and> (\<exists>es0. ?pre @ es = es0 @ [OpenSession c AuthExc]
                                  \<and> (\<forall>c'. OpenSession c' AuthExc \<notin> set es0))"
    proof (intro allI impI)
      fix c assume "OpenSession c AuthExc \<in> set (?pre @ es)"
      with noauth have "OpenSession c AuthExc \<in> set es" by auto
      with es(4) obtain es0 where "r = None" "es = es0 @ [OpenSession c AuthExc]"
        "\<forall>c'. OpenSession c' AuthExc \<notin> set es0" by blast
      with noauth show "r = None \<and> (\<exists>es0. ?pre @ es = es0 @ [OpenSession c AuthExc]
                                  \<and> (\<forall>c'. OpenSession c' AuthExc \<notin> set es0))"
        by (intro conjI exI[of _ "?pre @ es0"]) auto
    qed
    have ns: "no_send (?pre @ es)" using es(2) by simp
    have op: "\<forall>c. r = Some c \<longrightarrow> OpenSession c Opened \<in> set (?pre @ es)" using es(3) by auto
    from Cons.IH[OF run] t ns op a show ?thesis
      by (intro conjI exI[of _ "?pre @ es"]) (simp_all del: append_assoc)
  qed
qed

lemma connect_loop_shape:
  assumes "0 \<le> retry_delay dm" and "1 \<le> a"
    and "connect_loop net dev rc [a..b] dm = (r, dm')"
    and "n_open dm = n0 + nat (a - 1)"
  shows "\<exists>m. n_open dm' = n_open dm + nat m \<and> 0 \<le> m
            \<and> sleeps_and_opens (trace dm') = sleeps_and_opens (trace dm)
                 @ concat (map (attempt_events net (retry_delay dm) n0) [a..a + m - 1])"
  using assms
proof (induction "nat (b - a + 1)" arbitrary: a dm)
  case 0
  then have "[a..b] = []" by simp
  with 0 show ?case by (intro exI[of _ 0]) auto
next
  case (Suc n)
  then have ab: "a \<le> b" by linarith
  then have up: "[a..b] = a # [a + 1..b]" by (simp add: upto_rec1)
  have nn: "n = nat (b - (a + 1) + 1)" using Suc(2) by linarith
  have nosleepfail: "\<not> (a > 1 \<and> retry_delay dm * (a - 1) < 0)"
    using Suc.prems(1,2) by (auto simp: mult_less_0_iff)
  have tr2: "sleeps_and_opens (trace (after_open net a dm)) =
             sleeps_and_opens (trace dm) @ attempt_events net (retry_delay dm) n0 a"
    using Suc.prems(4) by (simp add: attempt_events_def)
  have no2: "n_open (after_open net a dm) = n0 + nat ((a + 1) - 1)"
    using Suc.prems(2,4) by (simp add: nat_add_distrib)
  have final: "\<exists>m. n_open dmx = n_open dm + nat m \<and> 0 \<le> m
            \<and> sleeps_and_opens (trace dmx) = sleeps_and_opens (trace dm)
                 @ concat (map (attempt_events net (retry_delay dm) n0) [a..a + m - 1])"
    if "n_open dmx = n_open (after_open net a dm)"
      and "sleeps_and_opens (trace dmx) = sleeps_and_opens (trace (after_open net a dm))" for dmx
    using that tr2 by (intro exI[of _ 1]) simp
  have rec: "\<exists>m. n_open dm' = n_open dm + nat m \<and> 0 \<le> m
            \<and> sleeps_and_opens (trace dm') = sleeps_and_opens (trace dm)
                 @ concat (map (attempt_events net (retry_delay dm) n0) [a..a + m - 1])"
    if run: "connect_loop net dev rc [a + 1..b] dmx = (r, dm')"
      and x1: "n_open dmx = n_open (after_open net a dm)"
      and x2: "retry_delay dmx = retry_delay dm"
      and x3: "sleeps_and_opens (trace dmx) = sleeps_and_opens (trace (after_open net a dm))" for dmx
  proof -
    have "\<exists>m. n_open dm' = n_open dmx + nat m \<and> 0 \<le> m
            \<and> sleeps_and_opens (trace dm') = sleeps_and_opens (trace dmx)
                 @ concat (map (attempt_events net (retry_delay dmx) n0) [a + 1..a + 1 + m - 1])"
      using Suc.prems(1) Suc.prems(2) run no2 x1 x2
      by (intro Suc.hyps(1)[OF nn]) auto
    then obtain m where m: "n_open dm' = n_open dmx + nat m" "0 \<le> m"
       "sleeps_and_opens (trace dm') = sleeps_and_opens (trace dmx)
                 @ concat (map (attempt_events net (retry_delay dmx) n0) [a + 1..a + 1 + m - 1])"
      by blast
    have "[a..a + (m + 1) - 1] = a # [a + 1..a + 1 + m - 1]"
      using m(2) by (simp add: upto_rec1[of a] add.commute)
    with m x1 x2 x3 tr2 show ?thesis
      by (intro exI[of _ "m + 1"]) (auto simp: nat_add_distrib)
  qed
  show ?case
  proof (cases rule: connect_loop_cases[of a dm net dev rc "[a + 1..b]"])
    case sleep_error
    with nosleepfail show ?thesis by simp
  next
    case retry
    with Suc.prems(3) up have "connect_loop net dev rc [a + 1..b] (after_open net a dm) = (r, dm')"
      by simp
    then show ?thesis by (rule rec) simp_all
  next
    case auth
    with Suc.prems(3) up have "dm' = after_open net a dm" by auto
    then show ?thesis by (intro final) simp_all
  next
    case ok
    with Suc.prems(3) up have "dm' = (after_probe net (after_open net a dm))
              \<lparr>connections := (connections dm)(dev \<mapsto> n_open dm)\<rparr>" by auto
    then show ?thesis by (intro final) simp_all
  next
    case dead
    with Suc.prems(3) up have "connect_loop net dev rc [a + 1..b]
             ((after_probe net (after_open net a dm))
                \<lparr>trace := trace (after_probe net (after_open net a dm)) @ [Disconnect (n_open dm)]\<rparr>)
             = (r, dm')" by simp
    then show ?thesis by (rule rec) simp_all
  qed
qed

lemma connect_loop_all_timeouts:
  assumes "0 \<le> retry_delay dm" and "\<forall>a \<in> set atts. 1 \<le> a"
    and "\<forall>i < length atts. open_result net (n_open dm + i) \<in> {TimeoutExc, OtherExc}"
    and "connect_loop net dev rc atts dm = (r, dm')"
  shows "r = None \<and> n_open dm' = n_open dm + length atts"
  using assms
proof (induction atts arbitrary: dm)
  case Nil
  then show ?case by (auto simp: connect_loop.simps)
next
  case (Cons a rest)
  have nosleepfail: "\<not> (a > 1 \<and> retry_delay dm * (a - 1) < 0)"
    using Cons.prems(1,2) by (auto simp: mult_less_0_iff)
  have t0: "open_result net (n_open dm) = TimeoutExc \<or> open_result net (n_open dm) = OtherExc"
    using Cons.prems(3)[rule_format, of 0] by simp
  have run: "connect_loop net dev rc rest (after_open net a dm) = (r, dm')"
    using connect_loop_retry[OF nosleepfail t0, of dev rc rest] Cons.prems(4) by simp
  have "\<forall>i < length rest. open_result net (n_open (after_open net a dm) + i) \<in> {TimeoutExc, OtherExc}"
    using Cons.prems(3) by auto
  with Cons.IH[OF _ _ _ run] Cons.prems(1,2) show ?case by simp
qed

lemma drop_session_simps [simp]:
  "n_open (drop_session dev c dm) = n_open dm"
  "n_probe (drop_session dev c dm) = n_probe dm"
  "n_send (drop_session dev c dm) = n_send dm"
  "retry_delay (drop_session dev c dm) = retry_delay dm"
  "connection_retries (drop_session dev c dm) = connection_retries dm"
  "devices (drop_session dev c dm) = devices dm"
  "connections (drop_session dev c dm) = (connections dm)(dev := None)"
  "trace (drop_session dev c dm) = trace dm @ [Disconnect c]"
  by (simp_all add: drop_session_def)

lemma after_send_simps [simp]:
  "n_open (after_send net cmd dm) = n_open dm"
  "n_probe (after_send net cmd dm) = n_probe dm"
  "n_send (after_send net cmd dm) = n_send dm + 1"
  "retry_delay (after_send net cmd dm) = retry_delay dm"
  "connection_retries (after_send net cmd dm) = connection_retries dm"
  "devices (after_send net cmd dm) = devices dm"
  "connections (after_send net cmd dm) = connections dm"
  "trace (after_send net cmd dm) = trace dm @ [SendCommand cmd (send_result net (n_send dm))]"
  by (simp_all add: after_send_def)

lemma loop_start_simps [simp]:
  "n_open (loop_start net dev dm) = n_open dm"
  "n_send (loop_start net dev dm) = n_send dm"
  "retry_delay (loop_start net dev dm) = retry_delay dm"
  "connection_retries (loop_start net dev dm) = connection_retries dm"
  "devices (loop_start net dev dm) = devices dm"
  "connections (loop_start net dev dm) dev = None"
  "sleeps_and_opens (trace (loop_start net dev dm)) = sleeps_and_opens (trace dm)"
  by (simp_all add: loop_start_def split: option.split)

lemma loop_start_connections: "connections (loop_start net dev dm) = (connections dm)(dev := None)"
  by (auto simp: loop_start_def split: option.split)

lemma loop_start_trace:
  "\<exists>pre. trace (loop_start net dev dm) = trace dm @ pre \<and> no_send pre
     \<and> (\<forall>c x. OpenSession c x \<notin> set pre) \<and> (\<forall>d. Sleep d \<notin> set pre)"
  by (auto simp: loop_start_def split: option.split)

lemma connect_cases:
  obtains (unknown) "map_of (devices dm) dev = None" "connect net dev rc_arg dm = (None, dm)"
  | (cached) c where "map_of (devices dm) dev \<noteq> None" "connections dm dev = Some c"
      "probe_result net (n_probe dm)" "connect net dev rc_arg dm = (Some c, after_probe net dm)"
  | (fresh) "map_of (devices dm) dev \<noteq> None"
      "\<not> (connections dm dev \<noteq> None \<and> probe_result net (n_probe dm))"
      "connect net dev rc_arg dm =
         connect_loop net dev (retry_budget rc_arg dm) [1..retry_budget rc_arg dm]
           (loop_start net dev dm)"
proof (cases "map_of (devices dm) dev")
  case None
  then show ?thesis using unknown by (simp add: connect_def)
next
  case (Some info)
  show ?thesis
  proof (cases "connections dm dev")
    case None
    with Some show ?thesis using fresh
      by (simp add: connect_def connect_fresh_def retry_budget_def loop_start_def Let_def)
  next
    case (Some c) note c = this
    show ?thesis
    proof (cases "probe_result net (n_probe dm)")
      case True
      with c \<open>map_of (devices dm) dev = Some info\<close> show ?thesis using cached[of c]
        by (simp add: connect_def check_connection_eq)
    next
      case False
      with c \<open>map_of (devices dm) dev = Some info\<close> show ?thesis using fresh
        by (cases rc_arg)
          (simp_all add: connect_def check_connection_eq connect_fresh_def retry_budget_def
            Let_def loop_start_def)
    qed
  qed
qed

lemma connect_general:
  assumes "connect net dev rc_arg dm = (r, dm')"
  shows "devices dm' = devices dm \<and> connection_retries dm' = connection_retries dm
       \<and> retry_delay dm' = retry_delay dm \<and> n_send dm' = n_send dm
       \<and> n_open dm \<le> n_open dm'
       \<and> (\<forall>c. r = Some c \<longrightarrow> connections dm' dev = Some c)
       \<and> (r = None \<longrightarrow> connections dm dev = None \<longrightarrow> connections dm' dev = None)
       \<and> (r = None \<longrightarrow> map_of (devices dm) dev \<noteq> None \<longrightarrow> connections dm' dev = None)
       \<and> (\<exists>es. trace dm' = trace dm @ es \<and> no_send es
              \<and> (\<forall>c. r = Some c \<longrightarrow> connections dm dev = None \<longrightarrow> OpenSession c Opened \<in> set es))"
proof (cases rule: connect_cases[of dm dev net rc_arg])
  case unknown
  with assms show ?thesis by auto
next
  case (cached c)
  with assms show ?thesis by auto
next
  case fresh
  with assms have run: "connect_loop net dev (retry_budget rc_arg dm) [1..retry_budget rc_arg dm]
           (loop_start net dev dm) = (r, dm')" by simp
  note g = connect_loop_general[OF run]
  from g obtain es where es: "trace dm' = trace (loop_start net dev dm) @ es" "no_send es"
     "\<forall>c. r = Some c \<longrightarrow> OpenSession c Opened \<in> set es" by blast
  from loop_start_trace[of net dev dm] obtain pre where
    pre: "trace (loop_start net dev dm) = trace dm @ pre" "no_send pre" by blast
  have "trace dm' = trace dm @ (pre @ es)" using es(1) pre(1) by simp
  moreover have "no_send (pre @ es)" using es(2) pre(2) by simp
  moreover have "\<forall>c. r = Some c \<longrightarrow> OpenSession c Opened \<in> set (pre @ es)" using es(3) by auto
  ultimately have "\<exists>es. trace dm' = trace dm @ es \<and> no_send es
              \<and> (\<forall>c. r = Some c \<longrightarrow> connections dm dev = None \<longrightarrow> OpenSession c Opened \<in> set es)"
    by blast
  with g show ?thesis by (simp add: loop_start_connections)
qed

lemma slept_simps [simp]:
  "slept [] = []"
  "slept (xs @ ys) = slept xs @ slept ys"
  "slept (Sleep d # es) = d # slept es"
  "slept (OpenSession c x # es) = slept es"
  "slept (Probe b # es) = slept es"
  "slept (Disconnect c # es) = slept es"
  "slept (SendCommand cmd res # es) = slept es"
  by (simp_all add: slept_def)

lemma slept_sleeps_and_opens: "slept (sleeps_and_opens es) = slept es"
proof (induction es)
  case Nil
  show ?case by simp
next
  case (Cons e es)
  then show ?case by (cases e) simp_all
qed

lemma slept_attempts:
  assumes "\<forall>k \<in> set ks. 1 < k"
  shows "slept (concat (map (attempt_events net d n0) ks)) = map (\<lambda>k. d * (k - 1)) ks"
  using assms by (induction ks) (simp_all add: attempt_events_def)

lemma slept_attempts_upto:
  "slept (concat (map (attempt_events net d n0) [1..m])) = map (\<lambda>k. d * (k - 1)) [2..m]"
proof (cases "1 \<le> m")
  case True
  then have "[1..m] = 1 # [2..m]" by (simp add: upto_rec1)
  moreover have "slept (concat (map (attempt_events net d n0) [2..m])) = map (\<lambda>k. d * (k - 1)) [2..m]"
    by (rule slept_attempts) auto
  ultimately show ?thesis by (simp add: attempt_events_def)
next
  case False
  then show ?thesis by simp
qed

lemma backoff_strictly_increasing:
  assumes "0 < (d::int)"
  shows "sorted_wrt (<) (map (\<lambda>k. d * (k - 1)) [2..m])"
proof -
  have "sorted_wrt (<) [2..m]" by simp
  then have "sorted_wrt (\<lambda>x y. d * (x - 1) < d * (y - 1)) [2..m]"
    by (rule sorted_wrt_mono_rel[rotated]) (use assms in auto)
  then show ?thesis by (simp add: sorted_wrt_map)
qed

lemma connect_shape:
  assumes "0 \<le> retry_delay dm" and "connect net dev rc_arg dm = (r, dm')"
  shows "n_open dm \<le> n_open dm'
       \<and> int (n_open dm' - n_open dm) \<le> max 0 (retry_budget rc_arg dm)
       \<and> sleeps_and_opens (trace dm') = sleeps_and_opens (trace dm)
           @ concat (map (attempt_events net (retry_delay dm) (n_open dm))
                       [1..int (n_open dm' - n_open dm)])"
proof (cases rule: connect_cases[of dm dev net rc_arg])
  case unknown
  with assms show ?thesis by auto
next
  case (cached c)
  with assms show ?thesis by auto
next
  case fresh
  let ?rc = "retry_budget rc_arg dm"
  from fresh assms have run: "connect_loop net dev ?rc [1..?rc] (loop_start net dev dm) = (r, dm')"
    by simp
  from connect_loop_general[OF run]
  have b: "n_open dm \<le> n_open dm'" "n_open dm' \<le> n_open dm + nat ?rc" by simp_all
  from connect_loop_shape[OF _ _ run, of "n_open dm"] assms(1)
  obtain m where m: "n_open dm' = n_open dm + nat m" "0 \<le> m"
    "sleeps_and_opens (trace dm') = sleeps_and_opens (trace dm)
                 @ concat (map (attempt_events net (retry_delay dm) (n_open dm)) [1..1 + m - 1])"
    by auto
  have "int (n_open dm' - n_open dm) = m" using m(1,2) by simp
  with m(3) b show ?thesis by auto
qed

lemma connect_timeouts_exhaust:
  assumes "0 \<le> retry_delay dm" and "connect net dev rc_arg dm = (r, dm')"
    and "map_of (devices dm) dev \<noteq> None"
    and "\<not> (connections dm dev \<noteq> None \<and> probe_result net (n_probe dm))"
    and "\<forall>i < nat (retry_budget rc_arg dm). open_result net (n_open dm + i) \<in> {TimeoutExc, OtherExc}"
  shows "r = None \<and> int (n_open dm' - n_open dm) = max 0 (retry_budget rc_arg dm)"
proof (cases rule: connect_cases[of dm dev net rc_arg])
  case unknown
  with assms show ?thesis by auto
next
  case (cached c)
  with assms show ?thesis by auto
next
  case fresh
  let ?rc = "retry_budget rc_arg dm"
  from fresh assms have run: "connect_loop net dev ?rc [1..?rc] (loop_start net dev dm) = (r, dm')"
    by simp
  have "r = None \<and> n_open dm' = n_open (loop_start net dev dm) + length [1..?rc]"
    using assms(1,5) by (intro connect_loop_all_timeouts[OF _ _ _ run]) auto
  then show ?thesis by auto
qed

text \<open>
  C4. A call of \<open>connect\<close> opens at most as many sessions as its retry count, which
  is 3 unless the caller gives one. Among the sleeps and opens of the call, attempt 1 is
  its open alone and every attempt \<open>k > 1\<close> is a sleep of \<open>retry_delay * (k - 1)\<close>
  followed by its open, so the delays of a call are \<open>retry_delay\<close> times 1, 2, 3, ...,
  strictly increasing. When the device is known, no cached session answers its probe
  and every open of the call fails with a timeout or another error that is not an
  authentication rejection, the call makes exactly as many attempts as the retry count
  and returns nothing. The delay is positive: the manager is built with 2, and
  \<open>connect\<close> changes neither the delay nor the default retry count.
\<close>

theorem connect_attempts_and_backoff:
  assumes "0 < retry_delay dm" and "connect net dev rc_arg dm = (r, dm')"
  shows "n_open dm \<le> n_open dm'
       \<and> int (n_open dm' - n_open dm) \<le> max 0 (retry_budget rc_arg dm)
       \<and> sleeps_and_opens (trace dm') = sleeps_and_opens (trace dm)
           @ concat (map (attempt_events net (retry_delay dm) (n_open dm))
                       [1..int (n_open dm' - n_open dm)])
       \<and> slept (trace dm') = slept (trace dm)
           @ map (\<lambda>k. retry_delay dm * (k - 1)) [2..int (n_open dm' - n_open dm)]
       \<and> sorted_wrt (<) (map (\<lambda>k. retry_delay dm * (k - 1)) [2..int (n_open dm' - n_open dm)])
       \<and> (map_of (devices dm) dev \<noteq> None
            \<and> \<not> (connections dm dev \<noteq> None \<and> probe_result net (n_probe dm))
            \<and> (\<forall>i < nat (retry_budget rc_arg dm).
                  open_result net (n_open dm + i) \<in> {TimeoutExc, OtherExc})
          \<longrightarrow> r = None \<and> int (n_open dm' - n_open dm) = max 0 (retry_budget rc_arg dm))
       \<and> retry_budget None (init_device_manager devs) = 3
       \<and> retry_delay (init_device_manager devs) = 2
       \<and> retry_delay dm' = retry_delay dm
       \<and> connection_retries dm' = connection_retries dm"
proof -
  have d0: "0 \<le> retry_delay dm" using assms(1) by simp
  have k: "retry_delay dm' = retry_delay dm \<and> connection_retries dm' = connection_retries dm"
    using connect_general[OF assms(2)] by blast
  have j: "retry_delay (init_device_manager devs) = 2"
    by (simp add: init_device_manager_def)
  note s = connect_shape[OF d0 assms(2)]
  have "slept (trace dm') = slept (sleeps_and_opens (trace dm'))"
    by (simp add: slept_sleeps_and_opens)
  also have "\<dots> = slept (trace dm)
           @ map (\<lambda>k. retry_delay dm * (k - 1)) [2..int (n_open dm' - n_open dm)]"
    using s by (simp add: slept_sleeps_and_opens slept_attempts_upto)
  finally have sl: "slept (trace dm') = slept (trace dm)
           @ map (\<lambda>k. retry_delay dm * (k - 1)) [2..int (n_open dm' - n_open dm)]" .
  have t: "map_of (devices dm) dev \<noteq> None
            \<and> \<not> (connections dm dev \<noteq> None \<and> probe_result net (n_probe dm))
            \<and> (\<forall>i < nat (retry_budget rc_arg dm).
                  open_result net (n_open dm + i) \<in> {TimeoutExc, OtherExc})
          \<longrightarrow> r = None \<and> int (n_open dm' - n_open dm) = max 0 (retry_budget rc_arg dm)"
    using connect_timeouts_exhaust[OF d0 assms(2)] by blast
  have i: "retry_budget None (init_device_manager devs) = 3"
    by (simp add: retry_budget_def init_device_manager_def)
  from s sl t i j k backoff_strictly_increasing[OF assms(1)] show ?thesis by blast
qed

lemma connect_auth_is_last:
  assumes "connect net dev rc_arg dm = (r, dm')" and "trace dm' = trace dm @ es"
    and "OpenSession c AuthExc \<in> set es"
  shows "r = None \<and> connections dm' dev = None
       \<and> (\<exists>es0. es = es0 @ [OpenSession c AuthExc] \<and> (\<forall>c'. OpenSession c' AuthExc \<notin> set es0))"
proof (cases rule: connect_cases[of dm dev net rc_arg])
  case unknown
  with assms show ?thesis by auto
next
  case (cached c)
  with assms show ?thesis by auto
next
  case fresh
  let ?rc = "retry_budget rc_arg dm"
  from fresh assms have run: "connect_loop net dev ?rc [1..?rc] (loop_start net dev dm) = (r, dm')"
    by simp
  from loop_start_trace[of net dev dm] obtain pre where
    pre: "trace (loop_start net dev dm) = trace dm @ pre" "\<forall>c x. OpenSession c x \<notin> set pre"
    by blast
  from connect_loop_general[OF run] obtain es1 where
    es1: "trace dm' = trace (loop_start net dev dm) @ es1"
      "\<forall>c. OpenSession c AuthExc \<in> set es1 \<longrightarrow>
                     r = None \<and> (\<exists>es0. es1 = es0 @ [OpenSession c AuthExc]
                                  \<and> (\<forall>c'. OpenSession c' AuthExc \<notin> set es0))"
    and cn: "r = None \<longrightarrow> connections dm' = connections (loop_start net dev dm)"
    by blast
  have es: "es = pre @ es1" using es1(1) pre(1) assms(2) by simp
  with assms(3) pre(2) have "OpenSession c AuthExc \<in> set es1" by auto
  with es1(2) obtain es0 where r: "r = None" and e0: "es1 = es0 @ [OpenSession c AuthExc]"
    "\<forall>c'. OpenSession c' AuthExc \<notin> set es0" by blast
  have "es = (pre @ es0) @ [OpenSession c AuthExc]" using es e0(1) by simp
  moreover have "\<forall>c'. OpenSession c' AuthExc \<notin> set (pre @ es0)" using pre(2) e0(2) by auto
  ultimately have "\<exists>es0. es = es0 @ [OpenSession c AuthExc] \<and> (\<forall>c'. OpenSession c' AuthExc \<notin> set es0)"
    by blast
  with r cn show ?thesis by simp
qed

lemma connect_first_attempt_rejected:
  assumes "connect net dev rc_arg dm = (r, dm')" and "trace dm' = trace dm @ es"
    and "OpenSession c AuthExc \<in> set es" and "open_result net (n_open dm) = AuthExc"
  shows "n_open dm' = n_open dm + 1 \<and> sleeps_and_opens es = [OpenSession (n_open dm) AuthExc]"
proof (cases rule: connect_cases[of dm dev net rc_arg])
  case unknown
  with assms show ?thesis by auto
next
  case (cached c)
  with assms show ?thesis by auto
next
  case fresh
  let ?rc = "retry_budget rc_arg dm"
  from fresh assms have run: "connect_loop net dev ?rc [1..?rc] (loop_start net dev dm) = (r, dm')"
    by simp
  from loop_start_trace[of net dev dm] obtain pre where
    pre: "trace (loop_start net dev dm) = trace dm @ pre" "\<forall>c x. OpenSession c x \<notin> set pre"
    by blast
  show ?thesis
  proof (cases "1 \<le> ?rc")
    case False
    then have "[1..?rc] = []" by simp
    with run have "dm' = loop_start net dev dm" by simp
    with pre assms(2,3) show ?thesis by auto
  next
    case True
    then have "[1..?rc] = 1 # [2..?rc]" by (simp add: upto_rec1)
    with run connect_loop_auth[of 1 "loop_start net dev dm" net dev ?rc "[2..?rc]"] assms(4)
    have "dm' = after_open net 1 (loop_start net dev dm)" by simp
    then have "n_open dm' = n_open dm + 1"
      "sleeps_and_opens (trace dm') = sleeps_and_opens (trace dm) @ [OpenSession (n_open dm) AuthExc]"
      using assms(4) by simp_all
    with assms(2) show ?thesis by simp
  qed
qed

text \<open>
  C5 (as amended). When an open call of \<open>connect\<close> is rejected for its credentials,
  the call returns nothing at once: the rejected open is the last thing the call does
  (no further attempt, no sleep after it), it is the only rejected open of the call,
  and the cache holds no session for the device. When the first attempt of the call is
  the rejected one, the call makes exactly one attempt and never sleeps. Attempts that
  failed otherwise before the rejection, and the sleeps between them, do occur.
\<close>

theorem connect_auth_rejection_not_retried:
  assumes "connect net dev rc_arg dm = (r, dm')" and "trace dm' = trace dm @ es"
    and "OpenSession c AuthExc \<in> set es"
  shows "r = None \<and> connections dm' dev = None
       \<and> last (trace dm') = OpenSession c AuthExc
       \<and> length (filter (\<lambda>e. case e of OpenSession _ AuthExc \<Rightarrow> True | _ \<Rightarrow> False) es) = 1
       \<and> (open_result net (n_open dm) = AuthExc \<longrightarrow>
            n_open dm' = n_open dm + 1 \<and> sleeps_and_opens es = [OpenSession (n_open dm) AuthExc])"
proof -
  from connect_auth_is_last[OF assms] obtain es0 where
    a: "r = None" "connections dm' dev = None" "es = es0 @ [OpenSession c AuthExc]"
       "\<forall>c'. OpenSession c' AuthExc \<notin> set es0" by blast
  have l: "last (trace dm') = OpenSession c AuthExc" using assms(2) a(3) by simp
  have "filter (\<lambda>e. case e of OpenSession _ AuthExc \<Rightarrow> True | _ \<Rightarrow> False) es0 = []"
  proof (rule filter_False, rule ballI)
    fix e assume "e \<in> set es0"
    with a(4) show "\<not> (case e of OpenSession _ AuthExc \<Rightarrow> True | _ \<Rightarrow> False)"
      by (auto split: event.splits open_outcome.splits)
  qed
  then have n: "length (filter (\<lambda>e. case e of OpenSession _ AuthExc \<Rightarrow> True | _ \<Rightarrow> False) es) = 1"
    using a(3) by simp
  from a(1,2) l n connect_first_attempt_rejected[OF assms] show ?thesis by blast
qed

text \<open>
  C5, as it was stated, fails when the rejection follows a transient failure: the
  first open times out, the call sleeps, and the second open is rejected, which makes
  two attempts and one sleep.
\<close>

theorem connect_auth_after_timeout_counterexample:
  "fst (connect net_timeout_then_auth ''R1'' None (init_device_manager r1_only)) = None
   \<and> trace (snd (connect net_timeout_then_auth ''R1'' None (init_device_manager r1_only)))
       = [OpenSession 0 TimeoutExc, Sleep 2, OpenSession 1 AuthExc]
   \<and> n_open (snd (connect net_timeout_then_auth ''R1'' None (init_device_manager r1_only))) = 2"
  by code_simp

theorem connect_auth_rejection_not_retried_witness:
  "trace (snd (connect net_auth ''R1'' None (init_device_manager r1_only)))
     = trace (init_device_manager r1_only) @ [OpenSession 0 AuthExc]
   \<and> OpenSession 0 AuthExc \<in> set [OpenSession 0 AuthExc]
   \<and> fst (connect net_auth ''R1'' None (init_device_manager r1_only)) = None
   \<and> last (trace (snd (connect net_auth ''R1'' None (init_device_manager r1_only))))
       = OpenSession 0 AuthExc
   \<and> n_open (snd (connect net_auth ''R1'' None (init_device_manager r1_only))) = 1"
proof -
  have t: "trace (snd (connect net_auth ''R1'' None (init_device_manager r1_only)))
     = trace (init_device_manager r1_only) @ [OpenSession 0 AuthExc]" by code_simp
  have m: "OpenSession 0 AuthExc \<in> set [OpenSession 0 AuthExc]" by simp
  have o: "open_result net_auth (n_open (init_device_manager r1_only)) = AuthExc" by code_simp
  have n0: "n_open (init_device_manager r1_only) = 0" by code_simp
  from connect_auth_rejection_not_retried
    [of net_auth "''R1''" None "init_device_manager r1_only"
        "fst (connect net_auth ''R1'' None (init_device_manager r1_only))"
        "snd (connect net_auth ''R1'' None (init_device_manager r1_only))",
     OF _ t m] o n0 t m
  show ?thesis by simp
qed

theorem connect_attempts_and_backoff_witness:
  "0 < retry_delay (init_device_manager r1_only)
   \<and> fst (connect net_timeouts ''R1'' None (init_device_manager r1_only)) = None
   \<and> n_open (snd (connect net_timeouts ''R1'' None (init_device_manager r1_only))) = 3
   \<and> slept (trace (snd (connect net_timeouts ''R1'' None (init_device_manager r1_only)))) = [2, 4]
   \<and> sleeps_and_opens (trace (snd (connect net_timeouts ''R1'' None (init_device_manager r1_only))))
       = [OpenSession 0 TimeoutExc, Sleep 2, OpenSession 1 TimeoutExc, Sleep 4,
          OpenSession 2 TimeoutExc]"
proof -
  have d: "0 < retry_delay (init_device_manager r1_only)" by code_simp
  have n: "n_open (snd (connect net_timeouts ''R1'' None (init_device_manager r1_only))) = 3"
    by code_simp
  have n0: "n_open (init_device_manager r1_only) = 0" "trace (init_device_manager r1_only) = []"
    "retry_delay (init_device_manager r1_only) = 2"
    by code_simp+
  have u: "[1..3::int] = [1, 2, 3]" "[2..3::int] = [2, 3]" by code_simp+
  have o: "\<And>i. open_result net_timeouts i = TimeoutExc" by (simp add: net_timeouts_def)
  have f: "fst (connect net_timeouts ''R1'' None (init_device_manager r1_only)) = None" by code_simp
  have c: "connect net_timeouts ''R1'' None (init_device_manager r1_only)
             = (fst (connect net_timeouts ''R1'' None (init_device_manager r1_only)),
                snd (connect net_timeouts ''R1'' None (init_device_manager r1_only)))"
    by simp
  from connect_attempts_and_backoff
    [of "init_device_manager r1_only" net_timeouts "''R1''" None
        "fst (connect net_timeouts ''R1'' None (init_device_manager r1_only))"
        "snd (connect net_timeouts ''R1'' None (init_device_manager r1_only))" r1_only, OF d c]
    n n0 u o d f
  show ?thesis by (simp add: attempt_events_def eval_nat_numeral)
qed

lemma clear_cached_simps [simp]:
  "n_open (clear_cached dev dm) = n_open dm"
  "n_send (clear_cached dev dm) = n_send dm"
  "devices (clear_cached dev dm) = devices dm"
  "retry_delay (clear_cached dev dm) = retry_delay dm"
  "connection_retries (clear_cached dev dm) = connection_retries dm"
  "connections (clear_cached dev dm) dev = None"
  by (simp_all add: clear_cached_def split: option.split)

lemma clear_cached_trace:
  "trace (clear_cached dev dm) =
     trace dm @ (case connections dm dev of None \<Rightarrow> [] | Some c \<Rightarrow> [Disconnect c])"
  by (simp add: clear_cached_def split: option.split)

lemma acquire_general:
  assumes "acquire net dev dm = (r, dm1)"
  shows "n_send dm1 = n_send dm \<and> devices dm1 = devices dm
       \<and> (\<forall>c. r = Some c \<longrightarrow> connections dm1 dev = Some c)
       \<and> (r = None \<longrightarrow> connections dm1 dev = None)
       \<and> (\<exists>es. trace dm1 = trace dm @ es \<and> no_send es)"
proof (cases "connections dm dev")
  case None
  with assms have c: "connect net dev None dm = (r, dm1)" by (simp add: acquire_def)
  from connect_general[OF c] None show ?thesis by auto
next
  case (Some c)
  show ?thesis
  proof (cases "probe_result net (n_probe dm)")
    case True
    with Some assms have "r = Some c" "dm1 = after_probe net dm"
      by (auto simp: acquire_def check_connection_eq)
    with Some show ?thesis by simp
  next
    case False
    with Some assms have c: "connect net dev None (drop_session dev c (after_probe net dm)) = (r, dm1)"
      by (simp add: acquire_def check_connection_eq)
    from connect_general[OF c] obtain es where
      es: "trace dm1 = trace (drop_session dev c (after_probe net dm)) @ es" "no_send es" by auto
    then have "trace dm1 = trace dm @ ([Probe (probe_result net (n_probe dm)), Disconnect c] @ es)"
      by simp
    moreover have "no_send ([Probe (probe_result net (n_probe dm)), Disconnect c] @ es)"
      using es(2) by simp
    ultimately have "\<exists>es. trace dm1 = trace dm @ es \<and> no_send es" by blast
    with connect_general[OF c] show ?thesis by simp
  qed
qed

lemma execute_loop_step:
  "execute_loop net dev cmd retry mx (a # rest) c dm =
     (case send_result net (n_send dm) of
        Inr out \<Rightarrow> (Some out, after_send net cmd dm)
      | Inl msg \<Rightarrow>
          (if retry \<and> a < mx then
             (if is_connection_error msg then
                (case connect net dev None (clear_cached dev (after_send net cmd dm)) of
                   (Some c', dm2) \<Rightarrow> execute_loop net dev cmd retry mx rest c' dm2
                 | (None, dm2) \<Rightarrow> (None, dm2))
              else (None, after_send net cmd dm))
           else (None, clear_cached dev (after_send net cmd dm))))"
  by (auto simp: after_send_def Let_def split: sum.split)

declare execute_loop.simps(2) [simp del]

lemma execute_command_paths:
  assumes "execute_command net dev cmd retry dm = (r, dm')"
  obtains (no_session) "acquire net dev dm = (None, dm')" "r = None"
  | (first_ok) c dm1 out where "acquire net dev dm = (Some c, dm1)"
      "send_result net (n_send dm1) = Inr out" "r = Some out" "dm' = after_send net cmd dm1"
  | (no_retry) c dm1 msg where "acquire net dev dm = (Some c, dm1)"
      "send_result net (n_send dm1) = Inl msg" "\<not> retry" "r = None"
      "dm' = clear_cached dev (after_send net cmd dm1)"
  | (not_transient) c dm1 msg where "acquire net dev dm = (Some c, dm1)"
      "send_result net (n_send dm1) = Inl msg" "retry" "\<not> is_connection_error msg" "r = None"
      "dm' = after_send net cmd dm1"
  | (reconnect_failed) c dm1 msg where "acquire net dev dm = (Some c, dm1)"
      "send_result net (n_send dm1) = Inl msg" "retry" "is_connection_error msg"
      "connect net dev None (clear_cached dev (after_send net cmd dm1)) = (None, dm')" "r = None"
  | (second_ok) c dm1 msg c' dm2 out where "acquire net dev dm = (Some c, dm1)"
      "send_result net (n_send dm1) = Inl msg" "retry" "is_connection_error msg"
      "connect net dev None (clear_cached dev (after_send net cmd dm1)) = (Some c', dm2)"
      "send_result net (n_send dm2) = Inr out" "r = Some out" "dm' = after_send net cmd dm2"
  | (second_failed) c dm1 msg c' dm2 msg2 where "acquire net dev dm = (Some c, dm1)"
      "send_result net (n_send dm1) = Inl msg" "retry" "is_connection_error msg"
      "connect net dev None (clear_cached dev (after_send net cmd dm1)) = (Some c', dm2)"
      "send_result net (n_send dm2) = Inl msg2" "r = None"
      "dm' = clear_cached dev (after_send net cmd dm2)"
proof (cases "acquire net dev dm")
  case (Pair a dm1)
  show ?thesis
  proof (cases a)
    case None
    with Pair assms show ?thesis using no_session by (auto simp: execute_command_def)
  next
    case (Some c)
    show ?thesis
    proof (cases retry)
      case False
      have u: "[1..1::int] = [1]" by simp
      from False Some Pair assms
      have e: "execute_loop net dev cmd False 1 [1] c dm1 = (r, dm')"
        by (simp add: execute_command_def)
      show ?thesis
      proof (cases "send_result net (n_send dm1)")
        case (Inl msg)
        with e have "r = None" "dm' = clear_cached dev (after_send net cmd dm1)"
          by (auto simp: execute_loop_step)
        with Inl False Some Pair show ?thesis using no_retry by blast
      next
        case (Inr out)
        with e have "r = Some out" "dm' = after_send net cmd dm1"
          by (auto simp: execute_loop_step)
        with Inr Some Pair show ?thesis using first_ok by blast
      qed
    next
      case True
      have u: "[1..2::int] = [1, 2]" by (simp add: upto_rec1)
      from True Some Pair assms
      have e: "execute_loop net dev cmd True 2 [1, 2] c dm1 = (r, dm')"
        by (simp add: execute_command_def u)
      show ?thesis
      proof (cases "send_result net (n_send dm1)")
        case (Inr out)
        with e have "r = Some out" "dm' = after_send net cmd dm1"
          by (auto simp: execute_loop_step)
        with Inr Some Pair show ?thesis using first_ok by blast
      next
        case (Inl msg)
        show ?thesis
        proof (cases "is_connection_error msg")
          case False
          with Inl e have "r = None" "dm' = after_send net cmd dm1"
            by (auto simp: execute_loop_step)
          with False Inl True Some Pair show ?thesis using not_transient by blast
        next
          case t: True
          show ?thesis
          proof (cases "connect net dev None (clear_cached dev (after_send net cmd dm1))")
            case (Pair b dm2) note cn = this
            show ?thesis
            proof (cases b)
              case None
              with cn t Inl e have "r = None" "dm' = dm2"
                by (auto simp: execute_loop_step)
              with None cn t Inl True Some \<open>acquire net dev dm = (a, dm1)\<close>
              show ?thesis using reconnect_failed by blast
            next
              case (Some c') note sc = this
              with cn t Inl e have e2: "execute_loop net dev cmd True 2 [2] c' dm2 = (r, dm')"
                by (auto simp: execute_loop_step)
              show ?thesis
              proof (cases "send_result net (n_send dm2)")
                case (Inl msg2)
                with e2 have "r = None" "dm' = clear_cached dev (after_send net cmd dm2)"
                  by (auto simp: execute_loop_step)
                with Inl sc cn t \<open>send_result net (n_send dm1) = Inl msg\<close> True
                  \<open>a = Some c\<close> \<open>acquire net dev dm = (a, dm1)\<close>
                show ?thesis using second_failed by blast
              next
                case (Inr out)
                with e2 have "r = Some out" "dm' = after_send net cmd dm2"
                  by (auto simp: execute_loop_step)
                with Inr sc cn t \<open>send_result net (n_send dm1) = Inl msg\<close> True
                  \<open>a = Some c\<close> \<open>acquire net dev dm = (a, dm1)\<close>
                show ?thesis using second_ok by blast
              qed
            qed
          qed
        qed
      qed
    qed
  qed
qed

lemma execute_command_counts:
  assumes "execute_command net dev cmd retry dm = (r, dm')"
  shows "n_send dm \<le> n_send dm' \<and> n_send dm' \<le> n_send dm + 2
       \<and> (\<not> retry \<longrightarrow> n_send dm' \<le> n_send dm + 1)
       \<and> r = (if n_send dm' = n_send dm then None
              else case send_result net (n_send dm' - 1) of
                     Inr out \<Rightarrow> Some out | Inl msg \<Rightarrow> None)
       \<and> (n_send dm' = n_send dm + 2 \<longrightarrow>
            retry \<and> (\<exists>msg. send_result net (n_send dm) = Inl msg \<and> is_connection_error msg))"
  using assms
proof (cases rule: execute_command_paths)
  case no_session
  from acquire_general[OF no_session(1)] no_session(2) show ?thesis by simp
next
  case (first_ok c dm1 out)
  from acquire_general[OF first_ok(1)] first_ok(2-) show ?thesis by simp
next
  case (no_retry c dm1 msg)
  from acquire_general[OF no_retry(1)] no_retry(2-) show ?thesis by simp
next
  case (not_transient c dm1 msg)
  from acquire_general[OF not_transient(1)] not_transient(2-) show ?thesis by simp
next
  case (reconnect_failed c dm1 msg)
  from acquire_general[OF reconnect_failed(1)] connect_general[OF reconnect_failed(5)]
    reconnect_failed(2-4,6)
  show ?thesis by simp
next
  case (second_ok c dm1 msg c' dm2 out)
  from acquire_general[OF second_ok(1)] connect_general[OF second_ok(5)] second_ok(2-4,6-)
  show ?thesis by simp
next
  case (second_failed c dm1 msg c' dm2 msg2)
  from acquire_general[OF second_failed(1)] connect_general[OF second_failed(5)]
    second_failed(2-4,6-)
  show ?thesis by simp
qed

lemma execute_command_cache:
  assumes "execute_command net dev cmd retry dm = (r, dm')"
  shows "(r = None \<longrightarrow> connections dm' dev = None
            \<or> (retry \<and> n_send dm' = n_send dm + 1
                \<and> (\<exists>msg. send_result net (n_send dm) = Inl msg \<and> \<not> is_connection_error msg)))
       \<and> (\<forall>msg. retry \<and> n_send dm < n_send dm' \<and> send_result net (n_send dm) = Inl msg
               \<and> \<not> is_connection_error msg
             \<longrightarrow> r = None \<and> n_send dm' = n_send dm + 1 \<and> connections dm' dev \<noteq> None)
       \<and> (\<forall>msg2. n_send dm' = n_send dm + 2 \<and> send_result net (n_send dm + 1) = Inl msg2
             \<longrightarrow> r = None \<and> connections dm' dev = None)"
  using assms
proof (cases rule: execute_command_paths)
  case no_session
  from acquire_general[OF no_session(1)] no_session(2) show ?thesis by simp
next
  case (first_ok c dm1 out)
  from acquire_general[OF first_ok(1)] first_ok(2-) show ?thesis by simp
next
  case (no_retry c dm1 msg)
  from acquire_general[OF no_retry(1)] no_retry(2-) show ?thesis by simp
next
  case (not_transient c dm1 msg)
  from acquire_general[OF not_transient(1)] not_transient(2-) show ?thesis by simp
next
  case (reconnect_failed c dm1 msg)
  from acquire_general[OF reconnect_failed(1)] connect_general[OF reconnect_failed(5)]
    reconnect_failed(2-4,6)
  show ?thesis by simp
next
  case (second_ok c dm1 msg c' dm2 out)
  from acquire_general[OF second_ok(1)] connect_general[OF second_ok(5)] second_ok(2-4,6-)
  show ?thesis by simp
next
  case (second_failed c dm1 msg c' dm2 msg2)
  from acquire_general[OF second_failed(1)] connect_general[OF second_failed(5)]
    second_failed(2-4,6-)
  show ?thesis by simp
qed

lemma execute_command_release:
  assumes "execute_command net dev cmd retry dm = (r, dm')"
    and "retry" and "n_send dm < n_send dm'"
    and "send_result net (n_send dm) = Inl msg" and "is_connection_error msg"
  shows "\<exists>c es1 es2. trace dm' = trace dm @ es1 @ [SendCommand cmd (Inl msg), Disconnect c] @ es2
          \<and> no_send es1
          \<and> (n_send dm' = n_send dm + 1 \<longrightarrow> no_send es2 \<and> r = None \<and> connections dm' dev = None)
          \<and> (n_send dm' = n_send dm + 2 \<longrightarrow>
               (\<exists>es3 es4 c'. es2 = es3 @ [SendCommand cmd (send_result net (n_send dm + 1))] @ es4
                  \<and> no_send es3 \<and> no_send es4 \<and> OpenSession c' Opened \<in> set es3))"
  using assms(1)
proof (cases rule: execute_command_paths)
  case no_session
  from acquire_general[OF no_session(1)] assms(3) show ?thesis by simp
next
  case (first_ok c dm1 out)
  from acquire_general[OF first_ok(1)] first_ok(2) assms(4) show ?thesis by simp
next
  case (no_retry c dm1 msg')
  with assms(2) show ?thesis by simp
next
  case (not_transient c dm1 msg')
  from acquire_general[OF not_transient(1)] not_transient(2,4) assms(4,5) show ?thesis by simp
next
  case (reconnect_failed c dm1 msg')
  from acquire_general[OF reconnect_failed(1)] obtain es1 where
    a: "n_send dm1 = n_send dm" "connections dm1 dev = Some c" "trace dm1 = trace dm @ es1"
       "no_send es1" by auto
  have m: "msg' = msg" using reconnect_failed(2) assms(4) a(1) by simp
  from connect_general[OF reconnect_failed(5)] obtain es where
    b: "n_send dm' = n_send dm + 1" "connections dm' dev = None"
       "trace dm' = trace (clear_cached dev (after_send net cmd dm1)) @ es" "no_send es"
    using a(1) by auto
  have "trace dm' = trace dm @ es1 @ [SendCommand cmd (Inl msg), Disconnect c] @ es"
    using b(3) a reconnect_failed(2) m by (simp add: clear_cached_trace)
  with a(4) b reconnect_failed(6) show ?thesis by (intro exI[of _ c] exI[of _ es1] exI[of _ es]) simp
next
  case (second_ok c dm1 msg' c' dm2 out)
  from acquire_general[OF second_ok(1)] obtain es1 where
    a: "n_send dm1 = n_send dm" "connections dm1 dev = Some c" "trace dm1 = trace dm @ es1"
       "no_send es1" by auto
  have m: "msg' = msg" using second_ok(2) assms(4) a(1) by simp
  from connect_general[OF second_ok(5)] obtain es where
    b: "n_send dm2 = n_send dm + 1" "connections dm2 dev = Some c'"
       "trace dm2 = trace (clear_cached dev (after_send net cmd dm1)) @ es" "no_send es"
       "OpenSession c' Opened \<in> set es"
    using a(1) by auto
  let ?es2 = "es @ [SendCommand cmd (send_result net (n_send dm + 1))] @ []"
  have "trace dm' = trace dm @ es1 @ [SendCommand cmd (Inl msg), Disconnect c] @ ?es2"
    using b(1,3) a second_ok(2,8) m by (simp add: clear_cached_trace)
  moreover have "n_send dm' = n_send dm + 2" using second_ok(8) b(1) by simp
  moreover have "\<exists>es3 es4 c'. ?es2 = es3 @ [SendCommand cmd (send_result net (n_send dm + 1))] @ es4
                  \<and> no_send es3 \<and> no_send es4 \<and> OpenSession c' Opened \<in> set es3"
    using b(4,5) by (intro exI[of _ es] exI[of _ "[]"] exI[of _ c']) simp
  ultimately show ?thesis using a(4)
    by (intro exI[of _ c] exI[of _ es1] exI[of _ ?es2]) simp
next
  case (second_failed c dm1 msg' c' dm2 msg2)
  from acquire_general[OF second_failed(1)] obtain es1 where
    a: "n_send dm1 = n_send dm" "connections dm1 dev = Some c" "trace dm1 = trace dm @ es1"
       "no_send es1" by auto
  have m: "msg' = msg" using second_failed(2) assms(4) a(1) by simp
  from connect_general[OF second_failed(5)] obtain es where
    b: "n_send dm2 = n_send dm + 1" "connections dm2 dev = Some c'"
       "trace dm2 = trace (clear_cached dev (after_send net cmd dm1)) @ es" "no_send es"
       "OpenSession c' Opened \<in> set es"
    using a(1) by auto
  let ?es2 = "es @ [SendCommand cmd (send_result net (n_send dm + 1))] @ [Disconnect c']"
  have "trace dm' = trace dm @ es1 @ [SendCommand cmd (Inl msg), Disconnect c] @ ?es2"
    using b(1,2,3) a second_failed(2,8) m by (simp add: clear_cached_trace)
  moreover have "n_send dm' = n_send dm + 2" using second_failed(8) b(1) by simp
  moreover have "\<exists>es3 es4 c'. ?es2 = es3 @ [SendCommand cmd (send_result net (n_send dm + 1))] @ es4
                  \<and> no_send es3 \<and> no_send es4 \<and> OpenSession c' Opened \<in> set es3"
    using b(4,5) by (intro exI[of _ es] exI[of _ "[Disconnect c']"] exI[of _ c']) simp
  ultimately show ?thesis using a(4)
    by (intro exI[of _ c] exI[of _ es1] exI[of _ ?es2]) simp
qed

lemma execute_command_reconnects:
  assumes "execute_command net dev cmd retry dm = (r, dm')"
  shows "(\<forall>dm1. acquire net dev dm = (None, dm1) \<longrightarrow> r = None \<and> dm' = dm1)
       \<and> (\<forall>c dm1. acquire net dev dm = (Some c, dm1) \<longrightarrow>
             n_send dm < n_send dm'
             \<and> (\<exists>es. trace dm' = trace dm1 @ SendCommand cmd (send_result net (n_send dm)) # es))
       \<and> (\<forall>c dm1 msg c' dm2.
             acquire net dev dm = (Some c, dm1) \<and> retry
             \<and> send_result net (n_send dm) = Inl msg \<and> is_connection_error msg
             \<and> connect net dev None (clear_cached dev (after_send net cmd dm1)) = (Some c', dm2)
           \<longrightarrow> n_send dm' = n_send dm + 2
               \<and> r = (case send_result net (n_send dm + 1) of
                        Inr out \<Rightarrow> Some out | Inl msg2 \<Rightarrow> None)
               \<and> dm' = (case send_result net (n_send dm + 1) of
                          Inr out \<Rightarrow> after_send net cmd dm2
                        | Inl msg2 \<Rightarrow> clear_cached dev (after_send net cmd dm2)))
       \<and> (\<forall>c dm1 msg dm2.
             acquire net dev dm = (Some c, dm1) \<and> retry
             \<and> send_result net (n_send dm) = Inl msg \<and> is_connection_error msg
             \<and> connect net dev None (clear_cached dev (after_send net cmd dm1)) = (None, dm2)
           \<longrightarrow> r = None \<and> dm' = dm2 \<and> n_send dm' = n_send dm + 1)"
  using assms
proof (cases rule: execute_command_paths)
  case no_session
  then show ?thesis by simp
next
  case (first_ok c dm1 out)
  from acquire_general[OF first_ok(1)] have n: "n_send dm1 = n_send dm" by simp
  with first_ok show ?thesis by (simp add: after_send_def)
next
  case (no_retry c dm1 msg)
  from acquire_general[OF no_retry(1)] have n: "n_send dm1 = n_send dm" by simp
  with no_retry show ?thesis by (simp add: after_send_def clear_cached_trace)
next
  case (not_transient c dm1 msg)
  from acquire_general[OF not_transient(1)] have n: "n_send dm1 = n_send dm" by simp
  with not_transient show ?thesis by (simp add: after_send_def)
next
  case (reconnect_failed c dm1 msg)
  from acquire_general[OF reconnect_failed(1)] have n: "n_send dm1 = n_send dm" by simp
  from connect_general[OF reconnect_failed(5)] obtain es where
    c: "n_send dm' = n_send dm1 + 1"
       "trace dm' = trace (clear_cached dev (after_send net cmd dm1)) @ es"
    by (auto simp: after_send_def)
  with n reconnect_failed show ?thesis by (simp add: after_send_def clear_cached_trace)
next
  case (second_ok c dm1 msg c' dm2 out)
  from acquire_general[OF second_ok(1)] have n: "n_send dm1 = n_send dm" by simp
  from connect_general[OF second_ok(5)] obtain es where
    c: "n_send dm2 = n_send dm1 + 1"
       "trace dm2 = trace (clear_cached dev (after_send net cmd dm1)) @ es"
    by (auto simp: after_send_def)
  with n second_ok show ?thesis by (simp add: after_send_def clear_cached_trace)
next
  case (second_failed c dm1 msg c' dm2 msg2)
  from acquire_general[OF second_failed(1)] have n: "n_send dm1 = n_send dm" by simp
  from connect_general[OF second_failed(5)] obtain es where
    c: "n_send dm2 = n_send dm1 + 1"
       "trace dm2 = trace (clear_cached dev (after_send net cmd dm1)) @ es"
    by (auto simp: after_send_def)
  with n second_failed show ?thesis by (simp add: after_send_def clear_cached_trace)
qed

text \<open>
  C1 (as amended). A call of \<open>execute_command\<close> sends the command at most twice, and
  at most once when retry is off; its result is the output of the last send, or nothing
  when that send failed or none was made. A second send happens only with retry on and
  after a first send that failed with a connection error (the message names a
  connection, a timeout or a closed socket). After such a failure the session in use is
  disconnected and dropped from the cache at once and \<open>connect\<close> is called: when it
  fails the call returns nothing and the cache holds no session for the device; when it
  opens a new session the command is sent exactly once more, and a second failure
  returns nothing and leaves no session in the cache. A call that returns nothing
  leaves no session in the cache for the device, except after a first failure that is
  not a connection error while retry is on: then the call returns nothing after that
  one send and the session stays in the cache. The retry does happen: when no session
  can be acquired the call returns nothing without a send; when one is acquired the
  command is sent on it; and after a first failure with a connection error and retry
  on, the call is what \<open>connect\<close> makes of the state left by that send and the
  release of the session: a failed \<open>connect\<close> ends the call after that one send, a
  \<open>connect\<close> that opens a session is followed by the second send, whose output is
  the result and whose failure releases the new session.
\<close>

theorem execute_command_retry_policy:
  assumes "execute_command net dev cmd retry dm = (r, dm')"
  shows "n_send dm \<le> n_send dm' \<and> n_send dm' \<le> n_send dm + 2
       \<and> (\<not> retry \<longrightarrow> n_send dm' \<le> n_send dm + 1)
       \<and> r = (if n_send dm' = n_send dm then None
              else case send_result net (n_send dm' - 1) of
                     Inr out \<Rightarrow> Some out | Inl msg \<Rightarrow> None)
       \<and> (n_send dm' = n_send dm + 2 \<longrightarrow>
            retry \<and> (\<exists>msg. send_result net (n_send dm) = Inl msg \<and> is_connection_error msg))
       \<and> (\<forall>msg. retry \<and> n_send dm < n_send dm' \<and> send_result net (n_send dm) = Inl msg
               \<and> is_connection_error msg \<longrightarrow>
            (\<exists>c es1 es2.
               trace dm' = trace dm @ es1 @ [SendCommand cmd (Inl msg), Disconnect c] @ es2
               \<and> no_send es1
               \<and> (n_send dm' = n_send dm + 1 \<longrightarrow>
                    no_send es2 \<and> r = None \<and> connections dm' dev = None)
               \<and> (n_send dm' = n_send dm + 2 \<longrightarrow>
                    (\<exists>es3 es4 c'.
                       es2 = es3 @ [SendCommand cmd (send_result net (n_send dm + 1))] @ es4
                       \<and> no_send es3 \<and> no_send es4 \<and> OpenSession c' Opened \<in> set es3))))
       \<and> (\<forall>msg2. n_send dm' = n_send dm + 2 \<and> send_result net (n_send dm + 1) = Inl msg2
             \<longrightarrow> r = None \<and> connections dm' dev = None)
       \<and> (r = None \<longrightarrow> connections dm' dev = None
            \<or> (retry \<and> n_send dm' = n_send dm + 1
                \<and> (\<exists>msg. send_result net (n_send dm) = Inl msg \<and> \<not> is_connection_error msg)))
       \<and> (\<forall>msg. retry \<and> n_send dm < n_send dm' \<and> send_result net (n_send dm) = Inl msg
               \<and> \<not> is_connection_error msg
             \<longrightarrow> r = None \<and> n_send dm' = n_send dm + 1 \<and> connections dm' dev \<noteq> None)
       \<and> (\<forall>dm1. acquire net dev dm = (None, dm1) \<longrightarrow> r = None \<and> dm' = dm1)
       \<and> (\<forall>c dm1. acquire net dev dm = (Some c, dm1) \<longrightarrow>
             n_send dm < n_send dm'
             \<and> (\<exists>es. trace dm' = trace dm1 @ SendCommand cmd (send_result net (n_send dm)) # es))
       \<and> (\<forall>c dm1 msg c' dm2.
             acquire net dev dm = (Some c, dm1) \<and> retry
             \<and> send_result net (n_send dm) = Inl msg \<and> is_connection_error msg
             \<and> connect net dev None (clear_cached dev (after_send net cmd dm1)) = (Some c', dm2)
           \<longrightarrow> n_send dm' = n_send dm + 2
               \<and> r = (case send_result net (n_send dm + 1) of
                        Inr out \<Rightarrow> Some out | Inl msg2 \<Rightarrow> None)
               \<and> dm' = (case send_result net (n_send dm + 1) of
                          Inr out \<Rightarrow> after_send net cmd dm2
                        | Inl msg2 \<Rightarrow> clear_cached dev (after_send net cmd dm2)))
       \<and> (\<forall>c dm1 msg dm2.
             acquire net dev dm = (Some c, dm1) \<and> retry
             \<and> send_result net (n_send dm) = Inl msg \<and> is_connection_error msg
             \<and> connect net dev None (clear_cached dev (after_send net cmd dm1)) = (None, dm2)
           \<longrightarrow> r = None \<and> dm' = dm2 \<and> n_send dm' = n_send dm + 1)"
proof -
  note rc = execute_command_reconnects[OF assms]
  have rel: "\<forall>msg. retry \<and> n_send dm < n_send dm' \<and> send_result net (n_send dm) = Inl msg
               \<and> is_connection_error msg \<longrightarrow>
            (\<exists>c es1 es2.
               trace dm' = trace dm @ es1 @ [SendCommand cmd (Inl msg), Disconnect c] @ es2
               \<and> no_send es1
               \<and> (n_send dm' = n_send dm + 1 \<longrightarrow>
                    no_send es2 \<and> r = None \<and> connections dm' dev = None)
               \<and> (n_send dm' = n_send dm + 2 \<longrightarrow>
                    (\<exists>es3 es4 c'.
                       es2 = es3 @ [SendCommand cmd (send_result net (n_send dm + 1))] @ es4
                       \<and> no_send es3 \<and> no_send es4 \<and> OpenSession c' Opened \<in> set es3)))"
    using execute_command_release[OF assms] by blast
  note a = execute_command_counts[OF assms]
  note b = execute_command_cache[OF assms]
  show ?thesis
    apply (intro conjI)
    subgoal using a by (elim conjE)
    subgoal using a by (elim conjE)
    subgoal using a by (elim conjE)
    subgoal using a by (elim conjE)
    subgoal using a by (elim conjE)
    subgoal using rel .
    subgoal using b by (elim conjE)
    subgoal using b by (elim conjE)
    subgoal using b by (elim conjE)
    subgoal using rc by (elim conjE)
    subgoal using rc by (elim conjE)
    subgoal using rc by (elim conjE)
    subgoal using rc by (elim conjE)
    done
qed

theorem execute_command_retry_policy_witness:
  "fst (execute_command net_flaky_send ''R1'' ''show running-config'' True
          (init_device_manager r1_only)) = Some ''hostname R1''
   \<and> n_send (snd (execute_command net_flaky_send ''R1'' ''show running-config'' True
          (init_device_manager r1_only))) = n_send (init_device_manager r1_only) + 2
   \<and> is_connection_error ''Socket is closed''
   \<and> trace (snd (execute_command net_flaky_send ''R1'' ''show running-config'' True
          (init_device_manager r1_only)))
      = [OpenSession 0 Opened, Probe True,
         SendCommand ''show running-config'' (Inl ''Socket is closed''), Disconnect 0,
         OpenSession 1 Opened, Probe True,
         SendCommand ''show running-config'' (Inr ''hostname R1'')]"
proof -
  have c: "execute_command net_flaky_send ''R1'' ''show running-config'' True
             (init_device_manager r1_only)
           = (fst (execute_command net_flaky_send ''R1'' ''show running-config'' True
                     (init_device_manager r1_only)),
              snd (execute_command net_flaky_send ''R1'' ''show running-config'' True
                     (init_device_manager r1_only)))"
    by simp
  have t: "trace (snd (execute_command net_flaky_send ''R1'' ''show running-config'' True
          (init_device_manager r1_only)))
      = [OpenSession 0 Opened, Probe True,
         SendCommand ''show running-config'' (Inl ''Socket is closed''), Disconnect 0,
         OpenSession 1 Opened, Probe True,
         SendCommand ''show running-config'' (Inr ''hostname R1'')]"
    by code_simp
  have n: "n_send (snd (execute_command net_flaky_send ''R1'' ''show running-config'' True
          (init_device_manager r1_only))) = 2" "n_send (init_device_manager r1_only) = 0"
    by code_simp+
  have s: "send_result net_flaky_send 1 = Inr ''hostname R1''" by code_simp
  have e: "is_connection_error ''Socket is closed''" by code_simp
  from execute_command_retry_policy[OF c] n s t e show ?thesis by simp
qed

text \<open>
  C1, as it was stated, fails for an error that is not a connection error: with
  retry on, the first failure returns nothing and the session just opened is still in
  the cache.
\<close>

theorem execute_command_keeps_session_counterexample:
  "fst (execute_command net_bad_command ''R1'' ''show running-config'' True
          (init_device_manager r1_only)) = None
   \<and> \<not> is_connection_error ''Search pattern never detected in send_command_expect: R1#''
   \<and> connections (snd (execute_command net_bad_command ''R1'' ''show running-config'' True
          (init_device_manager r1_only))) ''R1'' = Some 0
   \<and> trace (snd (execute_command net_bad_command ''R1'' ''show running-config'' True
          (init_device_manager r1_only)))
      = [OpenSession 0 Opened, Probe True,
         SendCommand ''show running-config''
           (Inl ''Search pattern never detected in send_command_expect: R1#'')]"
  by code_simp

section \<open>Properties of the backup store\<close>

lemma update_entry_present:
  assumes "k \<in> set (map fst kvs)"
  shows "update_entry k v kvs = map (\<lambda>(k', v'). if k' = k then (k', v) else (k', v')) kvs"
  using assms by (simp add: update_entry_def)

lemma map_of_distinct_eq:
  assumes "distinct (map fst kvs)" and "(k, v) \<in> set kvs"
  shows "map_of kvs k = Some v"
  using assms by simp

lemma cleanup_files_writable:
  assumes "writable d" and "\<forall>e \<in> set fs. is_file (snd e)"
  shows "cleanup_files lib cutoff dev fs d =
           (None, d\<lparr>files := filter (\<lambda>nf. fst nf \<notin> fst ` {e \<in> set fs. record_expired lib cutoff e})
                                (files d)\<rparr>)"
  using assms
proof (induction fs arbitrary: d)
  case Nil
  then show ?case by simp
next
  case (Cons e fs)
  obtain fname f where e: "e = (fname, f)" by (cases e)
  let ?rm = "d\<lparr>files := remove_entry fname (files d)\<rparr>"
  have w: "writable ?rm" using Cons.prems by simp
  have r: "\<forall>e \<in> set fs. is_file (snd e)" using Cons.prems by simp
  have i: "is_file f" using Cons.prems e by simp
  show ?case
  proof (cases "record_expired lib cutoff (fname, f)")
    case True
    then have step: "cleanup_files lib cutoff dev ((fname, f) # fs) d = cleanup_files lib cutoff dev fs ?rm"
      using Cons.prems(1) i
      by (auto simp: record_expired_def expired_def Let_def split: option.splits)
    have "filter (\<lambda>nf. fst nf \<notin> fst ` {e \<in> set fs. record_expired lib cutoff e})
            (remove_entry fname (files d))
        = filter (\<lambda>nf. fst nf \<notin> fst ` {e \<in> set ((fname, f) # fs). record_expired lib cutoff e})
            (files d)"
    proof -
      have "{e \<in> set ((fname, f) # fs). record_expired lib cutoff e}
            = insert (fname, f) {e \<in> set fs. record_expired lib cutoff e}"
        using True by auto
      then show ?thesis
        by (auto simp: remove_entry_def intro!: filter_cong)
    qed
    with step Cons.IH[OF w r] e show ?thesis by simp
  next
    case False
    then have step: "cleanup_files lib cutoff dev ((fname, f) # fs) d = cleanup_files lib cutoff dev fs d"
      by (auto simp: record_expired_def expired_def Let_def split: option.splits)
    have "{e \<in> set ((fname, f) # fs). record_expired lib cutoff e}
          = {e \<in> set fs. record_expired lib cutoff e}"
      using False by auto
    with step Cons.IH[OF Cons.prems(1) r] e show ?thesis by simp
  qed
qed

lemma cleanup_files_healthy:
  assumes "writable d" and "distinct (map fst (files d))"
    and "list_all (\<lambda>e. is_file (snd e)) (files d)"
  shows "cleanup_files lib cutoff dev (files d) d = (None, prune_dir lib cutoff d)"
proof -
  have "filter (\<lambda>nf. fst nf \<notin> fst ` {e \<in> set (files d). record_expired lib cutoff e}) (files d)
        = filter (\<lambda>nf. \<not> record_expired lib cutoff nf) (files d)"
  proof (rule filter_cong[OF refl])
    fix nf assume m: "nf \<in> set (files d)"
    show "(fst nf \<notin> fst ` {e \<in> set (files d). record_expired lib cutoff e})
          = (\<not> record_expired lib cutoff nf)"
    proof
      assume a: "fst nf \<notin> fst ` {e \<in> set (files d). record_expired lib cutoff e}"
      show "\<not> record_expired lib cutoff nf"
      proof
        assume "record_expired lib cutoff nf"
        with m have "fst nf \<in> fst ` {e \<in> set (files d). record_expired lib cutoff e}" by blast
        with a show False by simp
      qed
    next
      assume b: "\<not> record_expired lib cutoff nf"
      show "fst nf \<notin> fst ` {e \<in> set (files d). record_expired lib cutoff e}"
      proof
        assume "fst nf \<in> fst ` {e \<in> set (files d). record_expired lib cutoff e}"
        then obtain e where e: "e \<in> set (files d)" "record_expired lib cutoff e" "fst e = fst nf"
          by auto
        from assms(2) e(1,3) m have "e = nf"
          by (metis eq_key_imp_eq_value prod.collapse)
        with e(2) b show False by simp
      qed
    qed
  qed
  moreover have "\<forall>e \<in> set (files d). is_file (snd e)"
    using assms(3) by (simp add: list_all_iff)
  ultimately show ?thesis
    using cleanup_files_writable[OF assms(1), of "files d" lib cutoff dev]
    by (simp add: prune_dir_def)
qed

lemma prune_node_idem [simp]:
  "prune_node lib cutoff (prune_node lib cutoff n) = prune_node lib cutoff n"
  by (cases n) (simp_all add: prune_dir_def)

lemma healthy_prune_node: "healthy_node n \<Longrightarrow> healthy_node (prune_node lib cutoff n)"
  by (cases n) (simp_all add: prune_dir_def distinct_map_filter list_all_iff)

lemma backup_dir_pruned [simp]:
  "backup_dir (pruned lib cutoff A bm) =
     map (\<lambda>(n, node). if n \<in> A then (n, prune_node lib cutoff node) else (n, node)) (backup_dir bm)"
  by (simp add: pruned_def)

lemma names_pruned [simp]: "map fst (backup_dir (pruned lib cutoff A bm)) = map fst (backup_dir bm)"
  by (auto simp: pruned_def)

lemma healthy_pruned:
  assumes "healthy bm"
  shows "healthy (pruned lib cutoff A bm)"
proof -
  have "distinct (map fst (backup_dir (pruned lib cutoff A bm)))"
    using assms by (simp only: names_pruned healthy_def)
  moreover have "list_all (\<lambda>e. healthy_node (snd e)) (backup_dir (pruned lib cutoff A bm))"
    using assms by (auto simp: healthy_def list_all_iff healthy_prune_node)
  ultimately show ?thesis by (simp only: healthy_def)
qed

lemma pruned_pruned: "pruned lib cutoff A (pruned lib cutoff B bm) = pruned lib cutoff (A \<union> B) bm"
proof -
  have "map (\<lambda>(n, node). if n \<in> A then (n, prune_node lib cutoff node) else (n, node))
          (map (\<lambda>(n, node). if n \<in> B then (n, prune_node lib cutoff node) else (n, node)) xs)
        = map (\<lambda>(n, node). if n \<in> A \<union> B then (n, prune_node lib cutoff node) else (n, node)) xs"
    for xs :: "(string \<times> node) list"
    by (induction xs) auto
  then show ?thesis by (simp add: pruned_def del: map_map)
qed

lemma pruned_irrelevant:
  assumes "\<And>node. (dev, node) \<in> set (backup_dir bm) \<Longrightarrow> prune_node lib cutoff node = node"
  shows "pruned lib cutoff (insert dev A) bm = pruned lib cutoff A bm"
proof -
  have "map (\<lambda>(n, node). if n \<in> insert dev A then (n, prune_node lib cutoff node) else (n, node))
          (backup_dir bm)
        = map (\<lambda>(n, node). if n \<in> A then (n, prune_node lib cutoff node) else (n, node))
          (backup_dir bm)"
    using assms by (intro map_cong[OF refl]) auto
  then show ?thesis by (simp add: pruned_def)
qed

lemma pruned_single:
  assumes "distinct (map fst (backup_dir bm))" and "map_of (backup_dir bm) dev = Some n"
  shows "bm\<lparr>backup_dir := update_entry dev (prune_node lib cutoff n) (backup_dir bm)\<rparr>
         = pruned lib cutoff {dev} bm"
proof -
  have in_keys: "dev \<in> set (map fst (backup_dir bm))"
    using assms(2) by (metis map_of_eq_None_iff option.distinct(1) set_map)
  have "map (\<lambda>(k', v'). if k' = dev then (k', prune_node lib cutoff n) else (k', v')) (backup_dir bm)
        = map (\<lambda>(k, node). if k \<in> {dev} then (k, prune_node lib cutoff node) else (k, node))
            (backup_dir bm)"
  proof (rule map_cong[OF refl])
    fix e assume m: "e \<in> set (backup_dir bm)"
    obtain k v where e: "e = (k, v)" by (cases e)
    show "(case e of (k', v') \<Rightarrow> if k' = dev then (k', prune_node lib cutoff n) else (k', v'))
        = (case e of (k, node) \<Rightarrow> if k \<in> {dev} then (k, prune_node lib cutoff node) else (k, node))"
    proof (cases "k = dev")
      case True
      with m e assms have "v = n" by simp
      with True e show ?thesis by simp
    next
      case False
      with e show ?thesis by simp
    qed
  qed
  then show ?thesis by (simp add: pruned_def update_entry_present[OF in_keys])
qed

lemma healthy_lookup:
  assumes "healthy bm" and "map_of (backup_dir bm) dev = Some n"
  shows "healthy_node n"
proof -
  from assms(2) have "(dev, n) \<in> set (backup_dir bm)" by (rule map_of_SomeD)
  with assms(1) show ?thesis by (auto simp: healthy_def list_all_iff)
qed

lemma cleanup_devices_healthy:
  assumes "healthy bm"
  shows "cleanup_devices lib cutoff devs bm = (None, pruned lib cutoff (set devs) bm)"
  using assms
proof (induction devs arbitrary: bm)
  case Nil
  have "pruned lib cutoff {} bm = bm" by (simp add: pruned_def case_prod_unfold)
  then show ?case by simp
next
  case (Cons dev rest)
  have dist: "distinct (map fst (backup_dir bm))" using Cons.prems by (simp add: healthy_def)
  show ?case
  proof (cases "map_of (backup_dir bm) dev")
    case None
    then have "\<And>node. (dev, node) \<notin> set (backup_dir bm)"
      by (metis map_of_eq_None_iff image_eqI fst_conv)
    then have "pruned lib cutoff (insert dev (set rest)) bm = pruned lib cutoff (set rest) bm"
      by (intro pruned_irrelevant) simp
    with None Cons.IH[OF Cons.prems] show ?thesis by simp
  next
    case (Some n)
    show ?thesis
    proof (cases n)
      case PlainFile
      have "\<And>node. (dev, node) \<in> set (backup_dir bm) \<Longrightarrow> prune_node lib cutoff node = node"
        using Some PlainFile dist by auto
      then have "pruned lib cutoff (insert dev (set rest)) bm = pruned lib cutoff (set rest) bm"
        by (rule pruned_irrelevant)
      with Some PlainFile Cons.IH[OF Cons.prems] show ?thesis by simp
    next
      case (DeviceDir d)
      from healthy_lookup[OF Cons.prems Some] DeviceDir
      have h: "listable d" "writable d" "distinct (map fst (files d))"
        "list_all (\<lambda>e. is_file (snd e)) (files d)" by simp_all
      have cf: "cleanup_files lib cutoff dev (files d) d = (None, prune_dir lib cutoff d)"
        using h by (intro cleanup_files_healthy)
      have one: "bm\<lparr>backup_dir := update_entry dev (DeviceDir (prune_dir lib cutoff d)) (backup_dir bm)\<rparr>
                 = pruned lib cutoff {dev} bm"
        using pruned_single[OF dist Some, of lib cutoff] DeviceDir by simp
      have "cleanup_devices lib cutoff (dev # rest) bm
            = cleanup_devices lib cutoff rest (pruned lib cutoff {dev} bm)"
        using Some DeviceDir h(1) cf one by simp
      also have "\<dots> = (None, pruned lib cutoff (set rest) (pruned lib cutoff {dev} bm))"
        by (rule Cons.IH[OF healthy_pruned[OF Cons.prems]])
      also have "pruned lib cutoff (set rest) (pruned lib cutoff {dev} bm)
                 = pruned lib cutoff (set (dev # rest)) bm"
        by (simp add: pruned_pruned Un_commute)
      finally show ?thesis .
    qed
  qed
qed

lemma pruned_all_names:
  assumes "set (map fst (backup_dir bm)) \<subseteq> A"
  shows "pruned lib cutoff A bm = prune_all lib cutoff bm"
proof -
  have "map (\<lambda>(n, node). if n \<in> A then (n, prune_node lib cutoff node) else (n, node))
          (backup_dir bm)
        = map (\<lambda>(n, node). (n, prune_node lib cutoff node)) (backup_dir bm)"
    using assms by (intro map_cong[OF refl]) force
  then show ?thesis by (simp add: pruned_def prune_all_def)
qed

lemma cutoff_of_Some_iff:
  "cutoff_of now days = Some c \<longleftrightarrow>
     - 999999999 \<le> days \<and> days \<le> 999999999 \<and> c = now - days * 86400000000
     \<and> 0 \<le> c \<and> c \<le> datetime_max"
  by (auto simp: cutoff_of_def timedelta_days_def datetime_sub_def)

lemma cleanup_old_backups_overflow:
  assumes "cutoff_of now (retention_days bm) = None"
  shows "cleanup_old_backups lib now device_name bm = (Some OverflowError, bm)"
  using assms by (simp add: cleanup_old_backups_def)

lemma cleanup_old_backups_healthy:
  assumes "healthy bm" and "cutoff_of now (retention_days bm) = Some c"
  shows "cleanup_old_backups lib now None bm = (None, prune_all lib c bm)"
  using cleanup_devices_healthy[OF assms(1), of lib c "map fst (backup_dir bm)"] assms(2)
  by (simp add: cleanup_old_backups_def pruned_all_names)

text \<open>
  C8 (as amended). On a store without I/O failures (every device directory can be
  listed and written and holds regular files only), retention pruning removes exactly the backup records whose
  timestamp predates the cutoff, the timestamp being parsed from the file name and
  taken from the modification time when parsing fails: each device directory keeps
  exactly its other files, in their order, whatever the order in which the devices are
  visited. A full call of \<open>cleanup_old_backups\<close> does so with the cutoff
  \<open>now - retention_days\<close> when that cutoff is a datetime, that is when the retention
  is at most 999999999 days either way and the cutoff lies between \<open>datetime.min\<close>
  and \<open>datetime.max\<close>; otherwise the call raises \<open>OverflowError\<close> before it visits
  any device and nothing is pruned. A device directory that cannot be listed raises
  out of the loop: nothing is pruned for that device nor for the devices that come
  after it. The records are those of the device directories that are entries of the
  backup directory.
\<close>

theorem cleanup_removes_exactly_expired:
  assumes "healthy bm" and "set devs = set (map fst (backup_dir bm))"
  shows "cleanup_devices lib cutoff devs bm = (None, prune_all lib cutoff bm)
       \<and> (\<forall>c. cutoff_of now (retention_days bm) = Some c \<longrightarrow>
             cleanup_old_backups lib now None bm = (None, prune_all lib c bm))
       \<and> (\<forall>days c. cutoff_of now days = Some c \<longleftrightarrow>
             - 999999999 \<le> days \<and> days \<le> 999999999 \<and> c = now - days * 86400000000
             \<and> 0 \<le> c \<and> c \<le> datetime_max)
       \<and> (\<forall>bm0 device_name. cutoff_of now (retention_days bm0) = None \<longrightarrow>
             cleanup_old_backups lib now device_name bm0 = (Some OverflowError, bm0))
       \<and> (\<forall>dev d. map_of (backup_dir bm) dev = Some (DeviceDir d) \<longrightarrow>
             map_of (backup_dir (prune_all lib cutoff bm)) dev
               = Some (DeviceDir (d\<lparr>files := filter (\<lambda>nf. \<not> (endswith (fst nf) ''.cfg''
                                                              \<and> expired lib cutoff nf))
                                                (files d)\<rparr>)))
       \<and> (\<forall>bm0 dev d rest. map_of (backup_dir bm0) dev = Some (DeviceDir d) \<and> \<not> listable d
             \<longrightarrow> cleanup_devices lib cutoff (dev # rest) bm0 = (Some (ListError dev), bm0))"
proof -
  have a: "cleanup_devices lib cutoff devs bm = (None, prune_all lib cutoff bm)"
    using cleanup_devices_healthy[OF assms(1), of lib cutoff devs] assms(2)
    by (simp add: pruned_all_names)
  have b: "\<forall>c. cutoff_of now (retention_days bm) = Some c \<longrightarrow>
             cleanup_old_backups lib now None bm = (None, prune_all lib c bm)"
    using cleanup_old_backups_healthy[OF assms(1)] by blast
  have r: "\<forall>days c. cutoff_of now days = Some c \<longleftrightarrow>
             - 999999999 \<le> days \<and> days \<le> 999999999 \<and> c = now - days * 86400000000
             \<and> 0 \<le> c \<and> c \<le> datetime_max"
    using cutoff_of_Some_iff by blast
  have o: "\<forall>bm0 device_name. cutoff_of now (retention_days bm0) = None \<longrightarrow>
             cleanup_old_backups lib now device_name bm0 = (Some OverflowError, bm0)"
    using cleanup_old_backups_overflow by blast
  have c: "\<forall>dev d. map_of (backup_dir bm) dev = Some (DeviceDir d) \<longrightarrow>
             map_of (backup_dir (prune_all lib cutoff bm)) dev
               = Some (DeviceDir (d\<lparr>files := filter (\<lambda>nf. \<not> (endswith (fst nf) ''.cfg''
                                                              \<and> expired lib cutoff nf))
                                                (files d)\<rparr>))"
  proof (intro allI impI)
    fix dev d assume "map_of (backup_dir bm) dev = Some (DeviceDir d)"
    then have "map_of (map (\<lambda>(n, node). (n, prune_node lib cutoff node)) (backup_dir bm)) dev
               = Some (prune_node lib cutoff (DeviceDir d))"
      by (induction "backup_dir bm" arbitrary: bm) (auto simp: map_of_map)
    then show "map_of (backup_dir (prune_all lib cutoff bm)) dev
               = Some (DeviceDir (d\<lparr>files := filter (\<lambda>nf. \<not> (endswith (fst nf) ''.cfg''
                                                              \<and> expired lib cutoff nf))
                                                (files d)\<rparr>))"
      by (simp add: prune_all_def prune_dir_def record_expired_def)
  qed
  have d: "\<forall>bm0 dev d rest. map_of (backup_dir bm0) dev = Some (DeviceDir d) \<and> \<not> listable d
             \<longrightarrow> cleanup_devices lib cutoff (dev # rest) bm0 = (Some (ListError dev), bm0)"
    by simp
  from a b r o c d show ?thesis by (intro conjI)
qed

text \<open>
  C8, as it was stated, fails: the directory of R1 cannot be listed, the exception
  ends the pruning, and the expired record of R2 is still there.
\<close>

theorem cleanup_stops_at_failure_counterexample:
  "fst (cleanup_old_backups example_timelib mar_2_2020 None store_r1_unlistable)
     = Some (ListError ''R1'')
   \<and> cutoff_of mar_2_2020 (retention_days store_r1_unlistable) = Some feb_1_2020
   \<and> expired example_timelib feb_1_2020 (''20200101_000000.cfg'', old_file)
   \<and> map_of (backup_dir (snd (cleanup_old_backups example_timelib mar_2_2020 None
                                store_r1_unlistable))) ''R2''
     = Some (DeviceDir \<lparr>listable = True, writable = True,
                        files = [(''20200101_000000.cfg'', old_file),
                                 (''20200301_000000.cfg'', recent_file)]\<rparr>)"
  by code_simp

theorem cleanup_removes_exactly_expired_witness:
  "healthy store_ok
   \<and> set [''R2'', ''R1''] = set (map fst (backup_dir store_ok))
   \<and> cleanup_devices example_timelib feb_1_2020 [''R2'', ''R1''] store_ok
      = (None, prune_all example_timelib feb_1_2020 store_ok)
   \<and> cutoff_of mar_2_2020 (retention_days store_ok) = Some feb_1_2020
   \<and> cleanup_old_backups example_timelib mar_2_2020 None store_ok
      = (None, prune_all example_timelib feb_1_2020 store_ok)
   \<and> backup_dir (prune_all example_timelib feb_1_2020 store_ok)
      = [(''R1'', DeviceDir \<lparr>listable = True, writable = True, files = []\<rparr>),
         (''R2'', DeviceDir \<lparr>listable = True, writable = True,
                            files = [(''20200301_000000.cfg'', recent_file)]\<rparr>)]
   \<and> cutoff_of mar_2_2020 (retention_days (store_ok\<lparr>retention_days := 800000\<rparr>)) = None
   \<and> cleanup_old_backups example_timelib mar_2_2020 None (store_ok\<lparr>retention_days := 800000\<rparr>)
      = (Some OverflowError, store_ok\<lparr>retention_days := 800000\<rparr>)"
proof -
  have h: "healthy store_ok" by code_simp
  have s: "set [''R2'', ''R1''] = set (map fst (backup_dir store_ok))" by code_simp
  have k: "cutoff_of mar_2_2020 (retention_days store_ok) = Some feb_1_2020" by code_simp
  have v: "cutoff_of mar_2_2020 (retention_days (store_ok\<lparr>retention_days := 800000\<rparr>)) = None"
    by code_simp
  have p: "backup_dir (prune_all example_timelib feb_1_2020 store_ok)
      = [(''R1'', DeviceDir \<lparr>listable = True, writable = True, files = []\<rparr>),
         (''R2'', DeviceDir \<lparr>listable = True, writable = True,
                            files = [(''20200301_000000.cfg'', recent_file)]\<rparr>)]"
    by code_simp
  from cleanup_removes_exactly_expired[OF h s, of example_timelib feb_1_2020 mar_2_2020]
    h s k v p
  show ?thesis by blast
qed

section \<open>Properties of the orchestrator\<close>

lemma map_of_append_new:
  assumes "map_of kvs k = None"
  shows "map_of (kvs @ [(k, v)]) k' = (if k' = k then Some v else map_of kvs k')"
  using assms by (induction kvs) auto

lemma map_of_overwrite:
  "map_of (map (\<lambda>(a, b). if a = k then (a, v) else (a, b)) kvs) k'
     = (if k' = k then (if k \<in> fst ` set kvs then Some v else None) else map_of kvs k')"
  by (induction kvs) (force split: if_splits)+

lemma map_of_update_entry:
  "map_of (update_entry k v kvs) k' = (if k' = k then Some v else map_of kvs k')"
proof (cases "k \<in> set (map fst kvs)")
  case True
  then show ?thesis by (simp add: update_entry_def map_of_overwrite)
next
  case False
  then have "map_of kvs k = None" by (simp add: map_of_eq_None_iff)
  from map_of_append_new[OF this] False show ?thesis by (simp add: update_entry_def)
qed

lemma device_files_get_dir [simp]:
  "device_files (get_device_backup_dir dev bm) dev' = device_files bm dev'"
proof (cases "map_of (backup_dir bm) dev")
  case None
  from map_of_append_new[OF None, of "DeviceDir new_directory" dev'] None
  show ?thesis
    by (auto simp: device_files_def get_device_backup_dir_def new_directory_def)
next
  case (Some n)
  then show ?thesis by (simp add: get_device_backup_dir_def)
qed

lemma get_dir_idem:
  assumes "map_of (backup_dir bm) dev = Some n"
  shows "get_device_backup_dir dev bm = bm"
  using assms by (simp add: get_device_backup_dir_def)

lemma map_of_get_dir:
  "map_of (backup_dir (get_device_backup_dir dev bm)) dev \<noteq> None"
proof (cases "map_of (backup_dir bm) dev")
  case None
  from map_of_append_new[OF None, of "DeviceDir new_directory" dev] None
  show ?thesis by (simp add: get_device_backup_dir_def)
next
  case (Some n)
  then show ?thesis by (simp add: get_device_backup_dir_def)
qed

lemma backup_config_Some:
  assumes "backup_config lib now dev c bm = (Some name, bm1)"
  shows "name = strftime_key lib now @ ''.cfg''
       \<and> device_files bm1 dev
           = update_entry name
               (case map_of (device_files bm dev) name of
                  None \<Rightarrow> \<lparr>content = c, mtime = now, readable = True, is_file = True\<rparr>
                | Some old \<Rightarrow> old\<lparr>content := c, mtime := now\<rparr>)
               (device_files bm dev)
       \<and> (\<forall>dev'. dev' \<noteq> dev \<longrightarrow> device_files bm1 dev' = device_files bm dev')
       \<and> get_device_backup_dir dev bm1 = bm1
       \<and> retention_days bm1 = retention_days bm"
proof -
  let ?bm0 = "get_device_backup_dir dev bm"
  obtain d where n: "map_of (backup_dir ?bm0) dev = Some (DeviceDir d)" and w: "writable d"
    using assms
    by (auto simp: backup_config_def Let_def split: option.splits node.splits if_splits)
  have df: "device_files bm dev = files d"
    using n device_files_get_dir[of dev bm dev] by (simp add: device_files_def)
  let ?f = "(case map_of (files d) (strftime_key lib now @ ''.cfg'') of
                  None \<Rightarrow> \<lparr>content = c, mtime = now, readable = True, is_file = True\<rparr>
                | Some old \<Rightarrow> old\<lparr>content := c, mtime := now\<rparr>)"
  let ?d' = "d\<lparr>files := update_entry (strftime_key lib now @ ''.cfg'') ?f (files d)\<rparr>"
  from assms n w have r: "name = strftime_key lib now @ ''.cfg''"
    "bm1 = ?bm0\<lparr>backup_dir := update_entry dev (DeviceDir ?d') (backup_dir ?bm0)\<rparr>"
    by (auto simp: backup_config_def Let_def split: if_splits)
  have m: "map_of (backup_dir bm1) dev' = (if dev' = dev then Some (DeviceDir ?d')
                                          else map_of (backup_dir ?bm0) dev')" for dev'
    using r(2) by (simp add: map_of_update_entry)
  have a: "device_files bm1 dev = update_entry name ?f (files d)"
    using m[of dev] r(1) by (simp add: device_files_def)
  have b: "\<forall>dev'. dev' \<noteq> dev \<longrightarrow> device_files bm1 dev' = device_files bm dev'"
  proof (intro allI impI)
    fix dev' assume "dev' \<noteq> dev"
    then have "device_files bm1 dev' = device_files ?bm0 dev'"
      using m[of dev'] by (simp add: device_files_def)
    then show "device_files bm1 dev' = device_files bm dev'" by simp
  qed
  have c: "get_device_backup_dir dev bm1 = bm1"
    using m[of dev] by (simp add: get_dir_idem)
  have e: "retention_days bm1 = retention_days bm"
    using r(2) by (simp add: get_device_backup_dir_def split: option.split)
  from r(1) a b c e df show ?thesis by simp
qed

lemma get_backup_content_eq:
  "get_backup_content dev name bm = (prior_content bm dev name, get_device_backup_dir dev bm)"
proof -
  let ?bm0 = "get_device_backup_dir dev bm"
  have "device_files ?bm0 dev = device_files bm dev" by simp
  then show ?thesis
    by (auto simp: get_backup_content_def prior_content_def device_files_def Let_def
        split: option.splits node.splits)
qed

lemma history_loop_names:
  "file_name ` set (history_loop lib fs h) \<subseteq> file_name ` set h \<union> fst ` set fs"
proof (induction fs arbitrary: h)
  case Nil
  show ?case by simp
next
  case (Cons e fs)
  obtain n f where e: "e = (n, f)" by (cases e)
  show ?case
  proof (cases "endswith n ''.cfg'' \<and> is_file f")
    case True
    let ?h = "h @ [\<lparr>timestamp = strftime_iso lib
                        (case strptime lib (replace_del ''.cfg'' n) of Some t \<Rightarrow> t | None \<Rightarrow> mtime f),
                      file_name = n, entry_size = utf8_size (content f)\<rparr>]"
    have "history_loop lib (e # fs) h = history_loop lib fs ?h"
      using True e by (simp add: Let_def)
    with Cons.IH[of ?h] e show ?thesis by auto
  next
    case False
    with Cons.IH[of h] e show ?thesis by auto
  qed
qed

lemma set_sort_reverse [simp]: "set (sort_reverse k xs) = set xs"
  by (simp add: sort_reverse_def)

lemma latest_in_files:
  assumes "get_latest_backup lib dev bm = Some l"
  shows "l \<in> fst ` set (device_files bm dev)"
proof -
  from assms obtain e es where h: "get_backup_history lib dev bm = e # es" and l: "l = file_name e"
    by (auto simp: get_latest_backup_def split: list.splits)
  from h obtain d where d: "map_of (backup_dir bm) dev = Some (DeviceDir d)"
    and s: "sort_reverse timestamp (history_loop lib (files d) []) = e # es"
    by (auto simp: get_backup_history_def split: option.splits node.splits if_splits)
  have "e \<in> set (sort_reverse timestamp (history_loop lib (files d) []))" using s by simp
  then have "e \<in> set (history_loop lib (files d) [])" by simp
  with history_loop_names[of lib "files d" "[]"] have "file_name e \<in> fst ` set (files d)" by auto
  with d l show ?thesis by (simp add: device_files_def)
qed

lemma latest_none_if_no_files:
  assumes "device_files bm dev = []"
  shows "get_latest_backup lib dev bm = None"
  using assms
  by (auto simp: get_latest_backup_def get_backup_history_def device_files_def sort_reverse_def
      split: option.splits node.splits list.splits)

lemma backup_device_stored:
  assumes "get_config (network_of env) (command_of env) dev (device_mgr w) = (Some c, dm1)"
    and "c \<noteq> []"
    and "backup_config (timelib_of env) (clock_of env (n_now w)) dev c (backup_mgr w) = (Some name, bm1)"
    and "path_component dev"
  shows "backup_device env dev w =
           w\<lparr>device_mgr := dm1, backup_mgr := bm1, n_now := n_now w + 1,
             alerts := alerts w
               @ (case get_latest_backup (timelib_of env) dev (backup_mgr w) of
                    None \<Rightarrow> []
                  | Some l \<Rightarrow> alert_for (hunks_of env) dev (prior_content bm1 dev l) c)\<rparr>"
proof -
  from backup_config_Some[OF assms(3)] have g: "get_device_backup_dir dev bm1 = bm1" by simp
  show ?thesis
  proof (cases "get_latest_backup (timelib_of env) dev (backup_mgr w)")
    case None
    with assms show ?thesis by (simp add: backup_device_def Let_def)
  next
    case (Some l)
    show ?thesis
    proof (cases "prior_content bm1 dev l")
      case None
      with Some assms g show ?thesis
        by (simp add: backup_device_def Let_def get_backup_content_eq alert_for_def)
    next
      case (Some old)
      with \<open>get_latest_backup (timelib_of env) dev (backup_mgr w) = Some l\<close> assms g
      show ?thesis
        by (simp add: backup_device_def Let_def get_backup_content_eq alert_for_def)
    qed
  qed
qed

lemma universal_newlines_id:
  assumes "CHR 0x0D \<notin> set s"
  shows "universal_newlines s = s"
  using assms by (induction s rule: universal_newlines.induct) auto

text \<open>
  C6 (as amended). For a device whose name is a path component, whose capture succeeds
  with a non-empty text and whose store succeeds under a file name that the device
  does not have yet, the pipeline adds exactly one record to the device, a file of that
  name holding the captured text, whether or not the content changed, and leaves the
  records of every other device directory as they were. It calls the alert collaborator exactly when a
  latest record existed before storing, its content could be read and, as read back
  (CR LF and CR read as LF), was not empty, and comparing the text read back with the
  captured text reports changes; the call carries that comparison. In particular the
  first run of a device stores one record and sends no alert, and so does a run whose
  capture equals the text read back from the latest record, which is the case when the
  capture is byte-identical to the stored content and holds no CR.
\<close>

theorem backup_device_stores_and_alerts:
  assumes "get_config (network_of env) (command_of env) dev (device_mgr w) = (Some c, dm1)"
    and "c \<noteq> []"
    and "backup_config (timelib_of env) (clock_of env (n_now w)) dev c (backup_mgr w) = (Some name, bm1)"
    and "name \<notin> fst ` set (device_files (backup_mgr w) dev)"
    and "path_component dev"
  shows "(\<exists>f. content f = c
             \<and> device_files (backup_mgr (backup_device env dev w)) dev
                 = device_files (backup_mgr w) dev @ [(name, f)])
       \<and> (\<forall>dev'. path_component dev' \<and> dev' \<noteq> dev \<longrightarrow>
             device_files (backup_mgr (backup_device env dev w)) dev'
               = device_files (backup_mgr w) dev')
       \<and> alerts (backup_device env dev w)
           = alerts w
             @ (case get_latest_backup (timelib_of env) dev (backup_mgr w) of
                  None \<Rightarrow> []
                | Some l \<Rightarrow>
                    alert_for (hunks_of env) dev (prior_content (backup_mgr w) dev l) c)
       \<and> ((alerts (backup_device env dev w) \<noteq> alerts w)
            = (\<exists>l old. get_latest_backup (timelib_of env) dev (backup_mgr w) = Some l
                 \<and> prior_content (backup_mgr w) dev l = Some old \<and> old \<noteq> []
                 \<and> has_changes (compare_configs (hunks_of env) old c)))
       \<and> (get_latest_backup (timelib_of env) dev (backup_mgr w) = None \<longrightarrow>
             alerts (backup_device env dev w) = alerts w)
       \<and> (\<forall>l. get_latest_backup (timelib_of env) dev (backup_mgr w) = Some l
               \<and> prior_content (backup_mgr w) dev l = Some c \<longrightarrow>
             alerts (backup_device env dev w) = alerts w)
       \<and> (\<forall>l f. get_latest_backup (timelib_of env) dev (backup_mgr w) = Some l
               \<and> map_of (device_files (backup_mgr w) dev) l = Some f
               \<and> content f = c \<and> CHR 0x0D \<notin> set c \<longrightarrow>
             alerts (backup_device env dev w) = alerts w)"
proof -
  note st = backup_device_stored[OF assms(1-3) assms(5)]
  note bc = backup_config_Some[OF assms(3)]
  have fresh: "map_of (device_files (backup_mgr w) dev) name = None"
    using assms(4) by (simp add: map_of_eq_None_iff)
  have files1: "device_files bm1 dev = device_files (backup_mgr w) dev
             @ [(name, \<lparr>content = c, mtime = clock_of env (n_now w), readable = True, is_file = True\<rparr>)]"
    using bc fresh assms(4) by (simp add: update_entry_def)
  have a: "\<exists>f. content f = c
             \<and> device_files (backup_mgr (backup_device env dev w)) dev
                 = device_files (backup_mgr w) dev @ [(name, f)]"
    using st files1 by simp
  have b: "\<forall>dev'. path_component dev' \<and> dev' \<noteq> dev \<longrightarrow>
             device_files (backup_mgr (backup_device env dev w)) dev'
               = device_files (backup_mgr w) dev'"
    using st bc by simp
  have prior: "prior_content bm1 dev l = prior_content (backup_mgr w) dev l"
    if "get_latest_backup (timelib_of env) dev (backup_mgr w) = Some l" for l
  proof -
    from latest_in_files[OF that] assms(4) have "l \<noteq> name" by auto
    then show ?thesis
      using files1 map_of_append_new[OF fresh] by (simp add: prior_content_def)
  qed
  have al: "alerts (backup_device env dev w)
           = alerts w
             @ (case get_latest_backup (timelib_of env) dev (backup_mgr w) of
                  None \<Rightarrow> []
                | Some l \<Rightarrow>
                    alert_for (hunks_of env) dev (prior_content (backup_mgr w) dev l) c)"
    using st prior by (simp split: option.split)
  have iff: "(alerts (backup_device env dev w) \<noteq> alerts w)
            = (\<exists>l old. get_latest_backup (timelib_of env) dev (backup_mgr w) = Some l
                 \<and> prior_content (backup_mgr w) dev l = Some old \<and> old \<noteq> []
                 \<and> has_changes (compare_configs (hunks_of env) old c))"
    unfolding al by (auto simp: alert_for_def split: option.splits)
  have first: "get_latest_backup (timelib_of env) dev (backup_mgr w) = None \<longrightarrow>
             alerts (backup_device env dev w) = alerts w"
    using al by simp
  have same: "\<forall>l. get_latest_backup (timelib_of env) dev (backup_mgr w) = Some l
               \<and> prior_content (backup_mgr w) dev l = Some c \<longrightarrow>
             alerts (backup_device env dev w) = alerts w"
    using al by (simp add: alert_for_def compare_configs_def no_changes_def)
  have bytes: "\<forall>l f. get_latest_backup (timelib_of env) dev (backup_mgr w) = Some l
               \<and> map_of (device_files (backup_mgr w) dev) l = Some f
               \<and> content f = c \<and> CHR 0x0D \<notin> set c \<longrightarrow>
             alerts (backup_device env dev w) = alerts w"
  proof (intro allI impI)
    fix l f
    assume h: "get_latest_backup (timelib_of env) dev (backup_mgr w) = Some l
               \<and> map_of (device_files (backup_mgr w) dev) l = Some f
               \<and> content f = c \<and> CHR 0x0D \<notin> set c"
    then have u: "universal_newlines (content f) = c" by (simp add: universal_newlines_id)
    show "alerts (backup_device env dev w) = alerts w"
    proof (cases "readable f \<and> is_file f")
      case True
      with h u have "prior_content (backup_mgr w) dev l = Some c"
        by (simp add: prior_content_def)
      with h same show ?thesis by blast
    next
      case False
      with h have "prior_content (backup_mgr w) dev l = None"
        by (simp add: prior_content_def)
      with h al show ?thesis by (simp add: alert_for_def)
    qed
  qed
  from a b al iff first same bytes show ?thesis by (intro conjI)
qed

theorem backup_device_stores_and_alerts_witness:
  "get_config (network_of env_steady) (command_of env_steady) ''R1'' (device_mgr (world0 r1_only))
     = (Some ''hostname R1'',
        snd (get_config (network_of env_steady) (command_of env_steady) ''R1''
               (device_mgr (world0 r1_only))))
   \<and> ''hostname R1'' \<noteq> []
   \<and> path_component ''R1''
   \<and> fst (backup_config (timelib_of env_steady) (clock_of env_steady (n_now (world0 r1_only)))
           ''R1'' ''hostname R1'' (backup_mgr (world0 r1_only))) = Some ''20200101_000000.cfg''
   \<and> ''20200101_000000.cfg'' \<notin> fst ` set (device_files (backup_mgr (world0 r1_only)) ''R1'')
   \<and> device_files (backup_mgr (backup_device env_steady ''R1'' (world0 r1_only))) ''R1''
       = [(''20200101_000000.cfg'',
           \<lparr>content = ''hostname R1'', mtime = jan_1_2020, readable = True, is_file = True\<rparr>)]
   \<and> alerts (backup_device env_steady ''R1'' (world0 r1_only)) = []"
proof -
  have f: "fst (get_config (network_of env_steady) (command_of env_steady) ''R1''
                  (device_mgr (world0 r1_only))) = Some ''hostname R1''"
    by code_simp
  have g: "get_config (network_of env_steady) (command_of env_steady) ''R1''
             (device_mgr (world0 r1_only))
     = (Some ''hostname R1'',
        snd (get_config (network_of env_steady) (command_of env_steady) ''R1''
               (device_mgr (world0 r1_only))))"
    using f by (metis prod.collapse)
  have n: "''hostname R1'' \<noteq> []" by simp
  have pc: "path_component ''R1''" by code_simp
  have bf: "fst (backup_config (timelib_of env_steady) (clock_of env_steady (n_now (world0 r1_only)))
           ''R1'' ''hostname R1'' (backup_mgr (world0 r1_only))) = Some ''20200101_000000.cfg''"
    by code_simp
  have b: "backup_config (timelib_of env_steady) (clock_of env_steady (n_now (world0 r1_only)))
           ''R1'' ''hostname R1'' (backup_mgr (world0 r1_only))
         = (Some ''20200101_000000.cfg'',
            snd (backup_config (timelib_of env_steady)
                   (clock_of env_steady (n_now (world0 r1_only)))
                   ''R1'' ''hostname R1'' (backup_mgr (world0 r1_only))))"
    using bf by (metis prod.collapse)
  have fr: "''20200101_000000.cfg'' \<notin> fst ` set (device_files (backup_mgr (world0 r1_only)) ''R1'')"
    by code_simp
  have e: "alerts (world0 r1_only) = []"
    "get_latest_backup (timelib_of env_steady) ''R1'' (backup_mgr (world0 r1_only)) = None"
    by code_simp+
  have d: "device_files (backup_mgr (backup_device env_steady ''R1'' (world0 r1_only))) ''R1''
       = [(''20200101_000000.cfg'',
           \<lparr>content = ''hostname R1'', mtime = jan_1_2020, readable = True, is_file = True\<rparr>)]"
    by code_simp
  from backup_device_stores_and_alerts[OF g n b fr pc] g n pc bf fr e d show ?thesis by simp
qed

text \<open>
  C6, as it was stated, fails when the second capture is stored within the same
  second as the first: the file name is the same, the store overwrites the record, the
  device still has one record, and the prior content read after storing is the new
  text, so no alert is sent although the configuration changed.
\<close>

theorem backup_device_same_second_counterexample:
  "fst (get_config (network_of env_same_second) (command_of env_same_second) ''R1''
          (device_mgr (backup_device env_same_second ''R1'' (world0 r1_only))))
     = Some ''hostname R2''
   \<and> path_component ''R1''
   \<and> fst (backup_config (timelib_of env_same_second)
            (clock_of env_same_second (n_now (backup_device env_same_second ''R1'' (world0 r1_only))))
            ''R1'' ''hostname R2''
            (backup_mgr (backup_device env_same_second ''R1'' (world0 r1_only))))
     = Some ''20200101_000000.cfg''
   \<and> get_latest_backup (timelib_of env_same_second) ''R1''
         (backup_mgr (backup_device env_same_second ''R1'' (world0 r1_only)))
     = Some ''20200101_000000.cfg''
   \<and> prior_content (backup_mgr (backup_device env_same_second ''R1'' (world0 r1_only))) ''R1''
         ''20200101_000000.cfg'' = Some ''hostname R1''
   \<and> has_changes (compare_configs (hunks_of env_same_second) ''hostname R1'' ''hostname R2'')
   \<and> device_files (backup_mgr (backup_device env_same_second ''R1'' (world0 r1_only))) ''R1''
     = [(''20200101_000000.cfg'',
         \<lparr>content = ''hostname R1'', mtime = jan_1_2020, readable = True, is_file = True\<rparr>)]
   \<and> device_files
         (backup_mgr (backup_device env_same_second ''R1''
                        (backup_device env_same_second ''R1'' (world0 r1_only)))) ''R1''
     = [(''20200101_000000.cfg'',
         \<lparr>content = ''hostname R2'', mtime = jan_1_2020, readable = True, is_file = True\<rparr>)]
   \<and> alerts (backup_device env_same_second ''R1''
                (backup_device env_same_second ''R1'' (world0 r1_only))) = []"
  by code_simp

text \<open>
  The condition on CR is needed. Two captures of the same text with a CR LF, stored
  under two file names: the first is read back with LF alone, the comparison with the
  second capture reports a change, and an alert is sent. (The count of removed lines
  is 0 because the diff lines are joined without line ends, which puts the removed
  line on the line of the headers.)
\<close>

lemma backup_device_crlf_alert_example:
  "device_files (backup_mgr (backup_device env_crlf ''R1''
                   (backup_device env_crlf ''R1'' (world0 r1_only)))) ''R1''
     = [(''20200101_000000.cfg'',
         \<lparr>content = ''a'' @ [CHR 0x0D, CHR 0x0A] @ ''b'', mtime = jan_1_2020, readable = True, is_file = True\<rparr>),
        (''20200301_000000.cfg'',
         \<lparr>content = ''a'' @ [CHR 0x0D, CHR 0x0A] @ ''b'', mtime = mar_1_2020, readable = True, is_file = True\<rparr>)]
   \<and> prior_content (backup_mgr (backup_device env_crlf ''R1'' (world0 r1_only))) ''R1''
         ''20200101_000000.cfg'' = Some ''a\<newline>b''
   \<and> map fst (alerts (backup_device env_crlf ''R1''
                        (backup_device env_crlf ''R1'' (world0 r1_only)))) = [''R1'']
   \<and> map (\<lambda>a. (added_lines (snd a), removed_lines (snd a)))
         (alerts (backup_device env_crlf ''R1''
                    (backup_device env_crlf ''R1'' (world0 r1_only)))) = [(1, 0)]"
  by code_simp

lemma execute_command_first_output:
  assumes "acquire net dev dm = (Some c, dm2)" and "send_result net (n_send dm2) = Inr out"
  shows "fst (execute_command net dev cmd retry dm) = Some out"
proof -
  have "[1..2::int] = [1, 2]" by (simp add: upto_rec1)
  with assms show ?thesis
    by (cases retry) (simp_all add: execute_command_def execute_loop_step)
qed

text \<open>
  C10. When the capture of a device returns the empty text, the pipeline stops as it
  does for a failed capture: the store, the clock readings and the alert log are
  unchanged, so no record is stored, nothing is compared and no alert is sent. The
  command executor itself returns the empty output as its result, not as an error:
  with a session acquired and a first send that returns the empty text,
  \<open>execute_command\<close> returns that text.
\<close>

theorem empty_capture_stores_nothing:
  assumes "get_config (network_of env) (command_of env) dev (device_mgr w) = (Some [], dm1)"
  shows "backup_device env dev w = w\<lparr>device_mgr := dm1\<rparr>
       \<and> backup_mgr (backup_device env dev w) = backup_mgr w
       \<and> alerts (backup_device env dev w) = alerts w
       \<and> n_now (backup_device env dev w) = n_now w
       \<and> (\<forall>w0 dm0. get_config (network_of env) (command_of env) dev (device_mgr w0) = (None, dm0)
             \<longrightarrow> backup_device env dev w0 = w0\<lparr>device_mgr := dm0\<rparr>)
       \<and> (\<forall>net cmd retry dm c dm2. acquire net dev dm = (Some c, dm2)
               \<and> send_result net (n_send dm2) = Inr []
             \<longrightarrow> fst (execute_command net dev cmd retry dm) = Some [])"
proof -
  have a: "backup_device env dev w = w\<lparr>device_mgr := dm1\<rparr>"
    using assms by (simp add: backup_device_def)
  have f: "\<forall>w0 dm0. get_config (network_of env) (command_of env) dev (device_mgr w0) = (None, dm0)
             \<longrightarrow> backup_device env dev w0 = w0\<lparr>device_mgr := dm0\<rparr>"
    by (simp add: backup_device_def)
  have x: "\<forall>net cmd retry dm c dm2. acquire net dev dm = (Some c, dm2)
               \<and> send_result net (n_send dm2) = Inr []
             \<longrightarrow> fst (execute_command net dev cmd retry dm) = Some []"
    using execute_command_first_output by blast
  from a f x show ?thesis by simp
qed

theorem empty_capture_stores_nothing_witness:
  "get_config (network_of env_empty_output) (command_of env_empty_output) ''R1''
     (device_mgr (world0 r1_only))
     = (Some [],
        snd (get_config (network_of env_empty_output) (command_of env_empty_output) ''R1''
               (device_mgr (world0 r1_only))))
   \<and> backup_mgr (backup_device env_empty_output ''R1'' (world0 r1_only))
       = \<lparr>backup_dir = [], retention_days = 30\<rparr>
   \<and> alerts (backup_device env_empty_output ''R1'' (world0 r1_only)) = []
   \<and> n_now (backup_device env_empty_output ''R1'' (world0 r1_only)) = 0"
proof -
  have f: "fst (get_config (network_of env_empty_output) (command_of env_empty_output) ''R1''
                  (device_mgr (world0 r1_only))) = Some []"
    by code_simp
  have g: "get_config (network_of env_empty_output) (command_of env_empty_output) ''R1''
     (device_mgr (world0 r1_only))
     = (Some [],
        snd (get_config (network_of env_empty_output) (command_of env_empty_output) ''R1''
               (device_mgr (world0 r1_only))))"
    using f by (metis prod.collapse)
  have e: "backup_mgr (world0 r1_only) = \<lparr>backup_dir = [], retention_days = 30\<rparr>"
    "alerts (world0 r1_only) = []" "n_now (world0 r1_only) = 0"
    by (simp_all add: world0_def)
  from empty_capture_stores_nothing[OF g] g e show ?thesis by simp
qed

lemma backup_loop_outcomes:
  "backup_loop pipeline devs sc fc w =
     (sc + length (filter (\<lambda>out. \<not> fst out) (outcomes pipeline devs w)),
      fc + length (filter fst (outcomes pipeline devs w)),
      foldl (\<lambda>s d. snd (pipeline d s)) w devs)"
proof (induction devs arbitrary: sc fc w)
  case Nil
  show ?case by simp
next
  case (Cons d ds)
  obtain raised w' where p: "pipeline d w = (raised, w')" by (cases "pipeline d w")
  show ?case
  proof (cases raised)
    case True
    with p Cons.IH[of sc "fc + 1" w'] show ?thesis by simp
  next
    case False
    with p Cons.IH[of "sc + 1" fc w'] show ?thesis by simp
  qed
qed

lemma length_outcomes [simp]: "length (outcomes pipeline devs w) = length devs"
  by (induction devs arbitrary: w) simp_all

lemma map_of_get_dir_other:
  assumes "dev' \<noteq> dev"
  shows "map_of (backup_dir (get_device_backup_dir dev bm)) dev' = map_of (backup_dir bm) dev'"
proof (cases "map_of (backup_dir bm) dev")
  case None
  from map_of_append_new[OF None, of "DeviceDir new_directory" dev'] assms None
  show ?thesis by (simp add: get_device_backup_dir_def)
next
  case (Some n)
  then show ?thesis by (simp add: get_device_backup_dir_def)
qed

lemma backup_config_other_devices:
  assumes "dev' \<noteq> dev"
  shows "device_files (snd (backup_config lib now dev c bm)) dev' = device_files bm dev'"
proof (cases "backup_config lib now dev c bm")
  case (Pair r bm1)
  show ?thesis
  proof (cases r)
    case None
    with Pair have "bm1 = get_device_backup_dir dev bm"
      by (auto simp: backup_config_def Let_def split: option.splits node.splits if_splits)
    with Pair show ?thesis by simp
  next
    case (Some name)
    with Pair backup_config_Some[of lib now dev c bm name bm1] assms show ?thesis by simp
  qed
qed

lemma backup_device_other_devices:
  assumes "dev' \<noteq> dev" and "path_component dev"
  shows "device_files (backup_mgr (backup_device env dev w)) dev' = device_files (backup_mgr w) dev'"
proof -
  obtain cc dm1 where g: "get_config (network_of env) (command_of env) dev (device_mgr w) = (cc, dm1)"
    by (cases "get_config (network_of env) (command_of env) dev (device_mgr w)")
  show ?thesis
  proof (cases "cc = None \<or> cc = Some []")
    case True
    with g show ?thesis by (auto simp: backup_device_def)
  next
    case False
    then obtain c where c: "cc = Some c" "c \<noteq> []" by auto
    obtain r bm1 where b: "backup_config (timelib_of env) (clock_of env (n_now w)) dev c (backup_mgr w) = (r, bm1)"
      by (cases "backup_config (timelib_of env) (clock_of env (n_now w)) dev c (backup_mgr w)")
    have o: "device_files bm1 dev' = device_files (backup_mgr w) dev'"
      using backup_config_other_devices[OF assms(1), of "timelib_of env" "clock_of env (n_now w)" c "backup_mgr w"] b
      by simp
    show ?thesis
    proof (cases r)
      case None
      with g c b o assms(2) show ?thesis by (simp add: backup_device_def Let_def)
    next
      case (Some name)
      from backup_device_stored[OF g[unfolded c(1)] c(2) b[unfolded Some] assms(2)] o
      show ?thesis by simp
    qed
  qed
qed

lemma prune_eq:
  "prune env s =
     s\<lparr>backup_mgr := snd (cleanup_old_backups (timelib_of env) (clock_of env (n_now s)) None
                             (backup_mgr s)),
       n_now := n_now s + 1\<rparr>"
  by (simp add: prune_def split: prod.split)

lemma prune_healthy:
  assumes "healthy (backup_mgr s)"
    and "cutoff_of (clock_of env (n_now s)) (retention_days (backup_mgr s)) = Some c"
  shows "backup_mgr (prune env s) = prune_all (timelib_of env) c (backup_mgr s)"
  using cleanup_old_backups_healthy[OF assms, of "timelib_of env"] by (simp add: prune_eq)

text \<open>
  C7. A full run over a non-empty device registry runs the pipeline of every device
  exactly once, in the order of the registry, each from the world the one before it
  left, whether or not any of them raised: the raised ones are counted as failures, the
  others as successes, and none stops the loop. Retention pruning is one call of
  \<open>cleanup_old_backups\<close> for all devices, made on the store that the last pipeline
  left and with the clock read then; when that store has no I/O failure (every device
  directory can be listed and written and holds regular files only) and the
  cutoff is a datetime, the store the run leaves is that store without its expired
  records. Over an empty registry the run does nothing, pruning included. The pipeline
  of one device never changes the records of another device (both names being path
  components).
\<close>

theorem backup_all_devices_continues_on_error:
  "(devices (device_mgr w) \<noteq> [] \<longrightarrow>
      backup_all_devices_with pipeline env w
        = (length (filter (\<lambda>out. \<not> fst out)
                     (outcomes pipeline (map fst (devices (device_mgr w))) w)),
           length (filter fst (outcomes pipeline (map fst (devices (device_mgr w))) w)),
           prune env (foldl (\<lambda>s d. snd (pipeline d s)) w (map fst (devices (device_mgr w)))))
      \<and> backup_all_devices env w
        = (length (devices (device_mgr w)), 0,
           prune env (foldl (\<lambda>s d. backup_device env d s) w (map fst (devices (device_mgr w)))))
      \<and> (\<forall>c. healthy (backup_mgr (foldl (\<lambda>s d. snd (pipeline d s)) w
                                     (map fst (devices (device_mgr w)))))
             \<and> cutoff_of
                 (clock_of env (n_now (foldl (\<lambda>s d. snd (pipeline d s)) w
                                         (map fst (devices (device_mgr w))))))
                 (retention_days (backup_mgr (foldl (\<lambda>s d. snd (pipeline d s)) w
                                                (map fst (devices (device_mgr w)))))) = Some c
           \<longrightarrow> backup_mgr (snd (snd (backup_all_devices_with pipeline env w)))
               = prune_all (timelib_of env) c
                   (backup_mgr (foldl (\<lambda>s d. snd (pipeline d s)) w
                                  (map fst (devices (device_mgr w)))))))
   \<and> (devices (device_mgr w) = [] \<longrightarrow> backup_all_devices_with pipeline env w = (0, 0, w))
   \<and> length (outcomes pipeline (map fst (devices (device_mgr w))) w)
       = length (devices (device_mgr w))
   \<and> (\<forall>s. prune env s
           = s\<lparr>backup_mgr := snd (cleanup_old_backups (timelib_of env) (clock_of env (n_now s))
                                   None (backup_mgr s)),
               n_now := n_now s + 1\<rparr>)
   \<and> (\<forall>d dev' s. path_component d \<and> path_component dev' \<and> dev' \<noteq> d \<longrightarrow>
         device_files (backup_mgr (backup_device env d s)) dev' = device_files (backup_mgr s) dev')"
proof -
  let ?devs = "map fst (devices (device_mgr w))"
  have d: "\<forall>d dev' s. path_component d \<and> path_component dev' \<and> dev' \<noteq> d \<longrightarrow>
             device_files (backup_mgr (backup_device env d s)) dev' = device_files (backup_mgr s) dev'"
    using backup_device_other_devices by blast
  have p: "\<forall>s. prune env s
           = s\<lparr>backup_mgr := snd (cleanup_old_backups (timelib_of env) (clock_of env (n_now s))
                                   None (backup_mgr s)),
               n_now := n_now s + 1\<rparr>"
    using prune_eq by blast
  have e: "devices (device_mgr w) = [] \<longrightarrow> backup_all_devices_with pipeline env w = (0, 0, w)"
    by (simp add: backup_all_devices_with_def)
  have l: "length (outcomes pipeline ?devs w) = length (devices (device_mgr w))" by simp
  have n: "devices (device_mgr w) \<noteq> [] \<longrightarrow>
      backup_all_devices_with pipeline env w
        = (length (filter (\<lambda>out. \<not> fst out) (outcomes pipeline ?devs w)),
           length (filter fst (outcomes pipeline ?devs w)),
           prune env (foldl (\<lambda>s d. snd (pipeline d s)) w ?devs))
      \<and> backup_all_devices env w
        = (length (devices (device_mgr w)), 0,
           prune env (foldl (\<lambda>s d. backup_device env d s) w ?devs))
      \<and> (\<forall>c. healthy (backup_mgr (foldl (\<lambda>s d. snd (pipeline d s)) w ?devs))
             \<and> cutoff_of (clock_of env (n_now (foldl (\<lambda>s d. snd (pipeline d s)) w ?devs)))
                 (retention_days (backup_mgr (foldl (\<lambda>s d. snd (pipeline d s)) w ?devs))) = Some c
           \<longrightarrow> backup_mgr (snd (snd (backup_all_devices_with pipeline env w)))
               = prune_all (timelib_of env) c
                   (backup_mgr (foldl (\<lambda>s d. snd (pipeline d s)) w ?devs)))"
  proof
    assume "devices (device_mgr w) \<noteq> []"
    then have ne: "?devs \<noteq> []" by simp
    have a: "backup_all_devices_with pipeline env w
           = (length (filter (\<lambda>out. \<not> fst out) (outcomes pipeline ?devs w)),
              length (filter fst (outcomes pipeline ?devs w)),
              prune env (foldl (\<lambda>s d. snd (pipeline d s)) w ?devs))" for pipeline
      using ne by (simp add: backup_all_devices_with_def backup_loop_outcomes Let_def)
    have all_ok: "filter fst (outcomes (\<lambda>d s. (False, backup_device env d s)) ds s) = []" for ds s
      by (induction ds arbitrary: s) simp_all
    have none_raise: "filter (\<lambda>out. \<not> fst out) (outcomes (\<lambda>d s. (False, backup_device env d s)) ds s)
                    = outcomes (\<lambda>d s. (False, backup_device env d s)) ds s" for ds s
      by (induction ds arbitrary: s) simp_all
    have c: "backup_all_devices env w
           = (length (devices (device_mgr w)), 0,
              prune env (foldl (\<lambda>s d. backup_device env d s) w ?devs))"
      unfolding backup_all_devices_def a by (simp add: all_ok none_raise)
    have h: "\<forall>c. healthy (backup_mgr (foldl (\<lambda>s d. snd (pipeline d s)) w ?devs))
             \<and> cutoff_of (clock_of env (n_now (foldl (\<lambda>s d. snd (pipeline d s)) w ?devs)))
                 (retention_days (backup_mgr (foldl (\<lambda>s d. snd (pipeline d s)) w ?devs))) = Some c
           \<longrightarrow> backup_mgr (snd (snd (backup_all_devices_with pipeline env w)))
               = prune_all (timelib_of env) c
                   (backup_mgr (foldl (\<lambda>s d. snd (pipeline d s)) w ?devs))"
      unfolding a[of pipeline] using prune_healthy by simp
    from a[of pipeline] c h
    show "backup_all_devices_with pipeline env w
        = (length (filter (\<lambda>out. \<not> fst out) (outcomes pipeline ?devs w)),
           length (filter fst (outcomes pipeline ?devs w)),
           prune env (foldl (\<lambda>s d. snd (pipeline d s)) w ?devs))
      \<and> backup_all_devices env w
        = (length (devices (device_mgr w)), 0,
           prune env (foldl (\<lambda>s d. backup_device env d s) w ?devs))
      \<and> (\<forall>c. healthy (backup_mgr (foldl (\<lambda>s d. snd (pipeline d s)) w ?devs))
             \<and> cutoff_of (clock_of env (n_now (foldl (\<lambda>s d. snd (pipeline d s)) w ?devs)))
                 (retention_days (backup_mgr (foldl (\<lambda>s d. snd (pipeline d s)) w ?devs))) = Some c
           \<longrightarrow> backup_mgr (snd (snd (backup_all_devices_with pipeline env w)))
               = prune_all (timelib_of env) c
                   (backup_mgr (foldl (\<lambda>s d. snd (pipeline d s)) w ?devs)))"
      by (intro conjI)
  qed
  from n e l p d show ?thesis by (intro conjI)
qed

theorem backup_all_devices_continues_on_error_witness:
  "devices (device_mgr world_old_r2) \<noteq> []
   \<and> path_component ''R1'' \<and> path_component ''R2'' \<and> ''R2'' \<noteq> ''R1''
   \<and> fst (get_config (network_of env_r1_down) (command_of env_r1_down) ''R1''
           (device_mgr world_old_r2)) = None
   \<and> healthy (backup_mgr (foldl (\<lambda>s d. backup_device env_r1_down d s) world_old_r2
                             [''R1'', ''R2'']))
   \<and> cutoff_of
       (clock_of env_r1_down
          (n_now (foldl (\<lambda>s d. backup_device env_r1_down d s) world_old_r2 [''R1'', ''R2''])))
       (retention_days
          (backup_mgr (foldl (\<lambda>s d. backup_device env_r1_down d s) world_old_r2
                         [''R1'', ''R2'']))) = Some feb_1_2020
   \<and> device_files
       (backup_mgr (foldl (\<lambda>s d. backup_device env_r1_down d s) world_old_r2 [''R1'', ''R2'']))
       ''R2''
       = [(''20200101_000000.cfg'', old_file),
          (''20200301_000000.cfg'',
           \<lparr>content = ''hostname R2'', mtime = mar_1_2020, readable = True, is_file = True\<rparr>)]
   \<and> backup_all_devices env_r1_down world_old_r2
       = (2, 0, prune env_r1_down
                  (foldl (\<lambda>s d. backup_device env_r1_down d s) world_old_r2 [''R1'', ''R2'']))
   \<and> backup_mgr (snd (snd (backup_all_devices env_r1_down world_old_r2)))
       = prune_all example_timelib feb_1_2020
           (backup_mgr (foldl (\<lambda>s d. backup_device env_r1_down d s) world_old_r2
                          [''R1'', ''R2'']))
   \<and> device_files (backup_mgr (snd (snd (backup_all_devices env_r1_down world_old_r2)))) ''R1'' = []
   \<and> device_files (backup_mgr (snd (snd (backup_all_devices env_r1_down world_old_r2)))) ''R2''
       = [(''20200301_000000.cfg'',
           \<lparr>content = ''hostname R2'', mtime = mar_1_2020, readable = True, is_file = True\<rparr>)]
   \<and> fst (backup_all_devices_with (pipeline_r1_raises env_r1_down) env_r1_down world_old_r2) = 1
   \<and> fst (snd (backup_all_devices_with (pipeline_r1_raises env_r1_down) env_r1_down
                  world_old_r2)) = 1
   \<and> device_files
         (backup_mgr (snd (snd (backup_all_devices_with (pipeline_r1_raises env_r1_down)
                                  env_r1_down world_old_r2)))) ''R2''
       = [(''20200301_000000.cfg'',
           \<lparr>content = ''hostname R2'', mtime = mar_1_2020, readable = True, is_file = True\<rparr>)]"
proof -
  have r: "fst (backup_all_devices_with (pipeline_r1_raises env_r1_down) env_r1_down world_old_r2) = 1"
    "fst (snd (backup_all_devices_with (pipeline_r1_raises env_r1_down) env_r1_down
                  world_old_r2)) = 1"
    "device_files
         (backup_mgr (snd (snd (backup_all_devices_with (pipeline_r1_raises env_r1_down)
                                  env_r1_down world_old_r2)))) ''R2''
       = [(''20200301_000000.cfg'',
           \<lparr>content = ''hostname R2'', mtime = mar_1_2020, readable = True, is_file = True\<rparr>)]"
    by code_simp+
  have n: "devices (device_mgr world_old_r2) \<noteq> []" by code_simp
  have pc: "path_component ''R1''" "path_component ''R2''" "''R2'' \<noteq> ''R1''" by code_simp+
  have g: "fst (get_config (network_of env_r1_down) (command_of env_r1_down) ''R1''
           (device_mgr world_old_r2)) = None" by code_simp
  have h: "healthy (backup_mgr (foldl (\<lambda>s d. backup_device env_r1_down d s) world_old_r2
                             [''R1'', ''R2'']))" by code_simp
  have k: "cutoff_of
       (clock_of env_r1_down
          (n_now (foldl (\<lambda>s d. backup_device env_r1_down d s) world_old_r2 [''R1'', ''R2''])))
       (retention_days
          (backup_mgr (foldl (\<lambda>s d. backup_device env_r1_down d s) world_old_r2
                         [''R1'', ''R2'']))) = Some feb_1_2020" by code_simp
  have b: "device_files
       (backup_mgr (foldl (\<lambda>s d. backup_device env_r1_down d s) world_old_r2 [''R1'', ''R2'']))
       ''R2''
       = [(''20200101_000000.cfg'', old_file),
          (''20200301_000000.cfg'',
           \<lparr>content = ''hostname R2'', mtime = mar_1_2020, readable = True, is_file = True\<rparr>)]" by code_simp
  have f1: "device_files (backup_mgr (snd (snd (backup_all_devices env_r1_down world_old_r2)))) ''R1'' = []"
    by code_simp
  have f2: "device_files (backup_mgr (snd (snd (backup_all_devices env_r1_down world_old_r2)))) ''R2''
       = [(''20200301_000000.cfg'',
           \<lparr>content = ''hostname R2'', mtime = mar_1_2020, readable = True, is_file = True\<rparr>)]"
    by code_simp
  have m: "map fst (devices (device_mgr world_old_r2)) = [''R1'', ''R2'']"
    "length (devices (device_mgr world_old_r2)) = 2"
    by code_simp+
  have tl: "timelib_of env_r1_down = example_timelib" by (simp add: env_r1_down_def)
  have w: "backup_all_devices_with (\<lambda>d s. (False, backup_device env_r1_down d s)) env_r1_down
             world_old_r2 = backup_all_devices env_r1_down world_old_r2"
    by (simp add: backup_all_devices_def)
  note t = backup_all_devices_continues_on_error
         [of world_old_r2 "\<lambda>d s. (False, backup_device env_r1_down d s)" env_r1_down]
  note t1 = conjunct1[OF t, THEN mp, OF n]
  have q1: "backup_all_devices env_r1_down world_old_r2
       = (2, 0, prune env_r1_down
                  (foldl (\<lambda>s d. backup_device env_r1_down d s) world_old_r2 [''R1'', ''R2'']))"
    using t1 m by simp
  have q2: "backup_mgr (snd (snd (backup_all_devices env_r1_down world_old_r2)))
       = prune_all example_timelib feb_1_2020
           (backup_mgr (foldl (\<lambda>s d. backup_device env_r1_down d s) world_old_r2
                          [''R1'', ''R2'']))"
    using t1[THEN conjunct2, THEN conjunct2, rule_format, of feb_1_2020] h k
    by (simp add: m tl w)
  from n pc g h k b q1 q2 f1 f2 r show ?thesis by (intro conjI)
qed

end
